theory Spec2Isabelle
  imports Complex_Main "HOL-Library.Log_Nat" "HOL-Library.List_Lexorder" "HOL-Library.Char_ord"
    "HOL-Library.Multiset" "HOL-Library.Option_ord"
begin

section \<open>JavaScript numbers\<close>

text \<open>
  Every number of \<^verbatim>\<open>App.jsx\<close> is a JavaScript Number, an IEEE 754 binary64 value. A finite
  value is kept as the rational it denotes; the two zeros are told apart (\<open>Fin 0\<close> is +0,
  \<open>NZero\<close> is -0). Each arithmetic operation computes the exact rational result and rounds
  it to the nearest binary64 value, ties to even.
\<close>

datatype js_number = NaN | PInf | NInf | NZero | Fin rat

text \<open>\<open>flog2 q\<close> is the integer \<open>e\<close> with \<open>2^e \<le> q < 2^(e+1)\<close>, for \<open>q > 0\<close>.\<close>

definition flog2 :: "rat \<Rightarrow> int" where
  "flog2 q = (let (n, d) = quotient_of q; e = bitlen n - bitlen d
              in if 2 powi e \<le> q then e else e - 1)"

definition round_half_even :: "rat \<Rightarrow> int" where
  "round_half_even q = (let f = \<lfloor>q\<rfloor>; d = q - of_int f
     in if d < 1 / 2 then f else if 1 / 2 < d then f + 1 else if even f then f else f + 1)"

text \<open>
  Rounding to binary64: 53 significant bits, least exponent -1022 (below it the spacing stays
  \<open>2^-1074\<close>, the subnormal range), overflow to an infinity from \<open>2^1024\<close> on.
\<close>

definition round_ne :: "rat \<Rightarrow> js_number" where
  "round_ne q = (if q = 0 then Fin 0 else
     let a = \<bar>q\<bar>; e = max (flog2 a) (- 1022); ulp = 2 powi (e - 52);
         m = round_half_even (a / ulp); r = of_int m * ulp
     in if r = 0 then (if q < 0 then NZero else Fin 0)
        else if 1024 \<le> flog2 r then (if q < 0 then NInf else PInf)
        else Fin (if q < 0 then - r else r))"

text \<open>A well-formed Number: a finite value is one that rounding leaves as it is.\<close>

fun is_double :: "js_number \<Rightarrow> bool" where
  "is_double (Fin q) = (round_ne q = Fin q)"
| "is_double _ = True"

text \<open>
  The binary64 values are multiples of \<open>2^-1074\<close>, the least positive one.
\<close>

definition grid_unit :: rat where
  "grid_unit = 2 powi (- 1074)"

definition on_grid :: "rat \<Rightarrow> bool" where
  "on_grid q = (\<exists>k::int. q = of_int k * grid_unit)"

fun fin_val :: "js_number \<Rightarrow> rat" where
  "fin_val (Fin q) = q"
| "fin_val _ = 0"

fun sign_bit :: "js_number \<Rightarrow> bool" where
  "sign_bit NInf = True"
| "sign_bit NZero = True"
| "sign_bit (Fin q) = (q < 0)"
| "sign_bit _ = False"

definition signed_zero :: "bool \<Rightarrow> js_number" where
  "signed_zero s = (if s then NZero else Fin 0)"

definition signed_inf :: "bool \<Rightarrow> js_number" where
  "signed_inf s = (if s then NInf else PInf)"

definition is_inf :: "js_number \<Rightarrow> bool" where
  "is_inf a = (a = PInf \<or> a = NInf)"

definition is_zero :: "js_number \<Rightarrow> bool" where
  "is_zero a = (a = Fin 0 \<or> a = NZero)"

fun jneg :: "js_number \<Rightarrow> js_number" where
  "jneg NaN = NaN"
| "jneg PInf = NInf"
| "jneg NInf = PInf"
| "jneg NZero = Fin 0"
| "jneg (Fin q) = (if q = 0 then NZero else Fin (- q))"

text \<open>\<^verbatim>\<open>a + b\<close>. An exact sum of zero is +0 unless both operands are -0.\<close>

definition jadd :: "js_number \<Rightarrow> js_number \<Rightarrow> js_number" where
  "jadd a b =
     (if a = NaN \<or> b = NaN then NaN
      else if a = PInf then (if b = NInf then NaN else PInf)
      else if a = NInf then (if b = PInf then NaN else NInf)
      else if is_inf b then b
      else if a = NZero \<and> b = NZero then NZero
      else round_ne (fin_val a + fin_val b))"

text \<open>\<^verbatim>\<open>a - b\<close>\<close>

definition jsub :: "js_number \<Rightarrow> js_number \<Rightarrow> js_number" where
  "jsub a b = jadd a (jneg b)"

text \<open>\<^verbatim>\<open>a * b\<close>\<close>

definition jmul :: "js_number \<Rightarrow> js_number \<Rightarrow> js_number" where
  "jmul a b =
     (let s = (sign_bit a \<noteq> sign_bit b) in
      if a = NaN \<or> b = NaN then NaN
      else if is_inf a \<or> is_inf b then (if is_zero a \<or> is_zero b then NaN else signed_inf s)
      else if is_zero a \<or> is_zero b then signed_zero s
      else round_ne (fin_val a * fin_val b))"

text \<open>\<^verbatim>\<open>a / b\<close>. Dividing by a zero gives an infinity, or NaN for \<^verbatim>\<open>0 / 0\<close>; nothing is raised.\<close>

definition jdiv :: "js_number \<Rightarrow> js_number \<Rightarrow> js_number" where
  "jdiv a b =
     (let s = (sign_bit a \<noteq> sign_bit b) in
      if a = NaN \<or> b = NaN then NaN
      else if is_inf a then (if is_inf b then NaN else signed_inf s)
      else if is_inf b then signed_zero s
      else if is_zero b then (if is_zero a then NaN else signed_inf s)
      else if is_zero a then signed_zero s
      else round_ne (fin_val a / fin_val b))"

text \<open>\<^verbatim>\<open>x ** 2\<close>: the engines' \<^verbatim>\<open>pow\<close> returns \<^verbatim>\<open>x * x\<close> for the exponent 2.\<close>

definition jpow2 :: "js_number \<Rightarrow> js_number" where
  "jpow2 x = jmul x x"

text \<open>The integer square root, one bit at a time from the top.\<close>

primrec isqrt_bits :: "nat \<Rightarrow> int \<Rightarrow> int \<Rightarrow> int" where
  "isqrt_bits 0 n r = r"
| "isqrt_bits (Suc b) n r = isqrt_bits b n (if (r + 2 ^ b)\<^sup>2 \<le> n then r + 2 ^ b else r)"

definition isqrt :: "int \<Rightarrow> int" where
  "isqrt n = isqrt_bits (nat (bitlen n)) n 0"

text \<open>
  The correctly rounded square root of a positive binary64 value: \<open>m\<close> is the 53-bit
  integer below the root on the result's grid, rounded up when the root lies above
  \<open>m + 1/2\<close> (the root of a binary64 value is never a tie). The result is always in the
  normal range.
\<close>

definition sqrt_ne :: "rat \<Rightarrow> js_number" where
  "sqrt_ne q = (let k = flog2 q div 2; ulp = 2 powi (k - 52); N = q / (ulp * ulp);
                    m = isqrt \<lfloor>N\<rfloor>
                in Fin (of_int (if (of_int m + 1 / 2)\<^sup>2 < N then m + 1 else m) * ulp))"

text \<open>\<^verbatim>\<open>Math.sqrt\<close>\<close>

fun jsqrt :: "js_number \<Rightarrow> js_number" where
  "jsqrt NaN = NaN"
| "jsqrt PInf = PInf"
| "jsqrt NInf = NaN"
| "jsqrt NZero = NZero"
| "jsqrt (Fin q) = (if q < 0 then NaN else if q = 0 then Fin 0 else sqrt_ne q)"

text \<open>\<^verbatim>\<open>Math.abs\<close>\<close>

fun jabs :: "js_number \<Rightarrow> js_number" where
  "jabs NaN = NaN"
| "jabs PInf = PInf"
| "jabs NInf = PInf"
| "jabs NZero = Fin 0"
| "jabs (Fin q) = Fin \<bar>q\<bar>"

text \<open>\<^verbatim>\<open>a < b\<close> and \<^verbatim>\<open>a >= b\<close>: false as soon as an operand is NaN; the two zeros are equal.\<close>

definition jlt :: "js_number \<Rightarrow> js_number \<Rightarrow> bool" where
  "jlt a b =
     (if a = NaN \<or> b = NaN then False
      else if a = PInf \<or> b = NInf then False
      else if a = NInf \<or> b = PInf then True
      else fin_val a < fin_val b)"

definition jge :: "js_number \<Rightarrow> js_number \<Rightarrow> bool" where
  "jge a b = (a \<noteq> NaN \<and> b \<noteq> NaN \<and> \<not> jlt a b)"

text \<open>\<^verbatim>\<open>a === b\<close> on numbers: NaN equals nothing, +0 equals -0.\<close>

definition jeq :: "js_number \<Rightarrow> js_number \<Rightarrow> bool" where
  "jeq a b = (a \<noteq> NaN \<and> b \<noteq> NaN \<and> (a = b \<or> (is_zero a \<and> is_zero b)))"

text \<open>\<^verbatim>\<open>a || b\<close> on numbers: the falsy numbers are the zeros and NaN.\<close>

definition js_or :: "js_number \<Rightarrow> js_number \<Rightarrow> js_number" where
  "js_or a b = (if is_zero a \<or> a = NaN then b else a)"

text \<open>An array length or a counter as a Number.\<close>

definition num :: "nat \<Rightarrow> js_number" where
  "num n = round_ne (of_nat n)"

section \<open>Data model\<close>

text \<open>
  The objects of the statistics engine. An object that is built from another by a spread
  (\<^verbatim>\<open>{ ...r, z }\<close>) is a record extension of it, and every object with a \<^verbatim>\<open>date\<close> extends
  \<open>Dated\<close>, so that \<open>date\<close> reads all of them, as the property access does.
\<close>

record Dated =
  date :: string

record PricePoint = Dated +
  close :: js_number

record PeriodReturn = Dated +
  ret :: js_number

record NormalizedPoint = PeriodReturn +
  z :: js_number
  localMean :: "js_number option"
  localStd :: "js_number option"

record StatsResult =
  mean :: js_number
  std :: js_number
  data :: "NormalizedPoint list"

section \<open>Stats helpers\<close>

text \<open>
  The three functions of \<^verbatim>\<open>App.jsx\<close>. The period is the string of the period selector, and
  the window size a natural number (the application offers 20, 60, 120 and 252). No
  function raises: every index that is read is in range, and a division by zero is a value.
\<close>

definition step_of :: "string \<Rightarrow> nat" where
  "step_of period = (if period = ''daily'' then 1 else if period = ''weekly'' then 5 else 21)"

text \<open>The \<^verbatim>\<open>for\<close> loop of \<^verbatim>\<open>computeReturns\<close>, from index \<open>i\<close> on.\<close>

function computeReturns_loop :: "PricePoint list \<Rightarrow> string \<Rightarrow> nat \<Rightarrow> PeriodReturn list" where
  "computeReturns_loop prices period i =
     (let step = step_of period in
      if i < length prices
      then \<lparr>date = date (prices ! i),
            ret = jdiv (jsub (close (prices ! i)) (close (prices ! (i - step))))
                       (close (prices ! (i - step)))\<rparr>
           # computeReturns_loop prices period (i + step)
      else [])"
  by pat_completeness auto
termination
  by (relation "measure (\<lambda>(prices, period, i). length prices - i)")
     (auto simp: step_of_def)

definition computeReturns :: "PricePoint list \<Rightarrow> string \<Rightarrow> PeriodReturn list" where
  "computeReturns prices period = computeReturns_loop prices period (step_of period)"

text \<open>\<^verbatim>\<open>vals.reduce((a, b) => a + b, 0)\<close> and \<^verbatim>\<open>vals.reduce((a, b) => a + (b - mean) ** 2, 0)\<close>\<close>

definition sum_vals :: "js_number list \<Rightarrow> js_number" where
  "sum_vals vals = foldl jadd (Fin 0) vals"

definition sum_sq_dev :: "js_number list \<Rightarrow> js_number \<Rightarrow> js_number" where
  "sum_sq_dev vals mean_v = foldl (\<lambda>a b. jadd a (jpow2 (jsub b mean_v))) (Fin 0) vals"

text \<open>\<^verbatim>\<open>std === 0 ? 0 : (r.ret - mean) / std\<close>\<close>

definition zscore :: "js_number \<Rightarrow> js_number \<Rightarrow> js_number \<Rightarrow> js_number" where
  "zscore r mean_v std_v = (if jeq std_v (Fin 0) then Fin 0 else jdiv (jsub r mean_v) std_v)"

definition computeStatsFullSample :: "PeriodReturn list \<Rightarrow> StatsResult" where
  "computeStatsFullSample returns =
     (let n = length returns in
      if n = 0 then \<lparr>mean = Fin 0, std = Fin 0, data = []\<rparr>
      else
        let vals = map ret returns;
            mean_v = jdiv (sum_vals vals) (num n);
            variance = jdiv (sum_sq_dev vals mean_v) (js_or (jsub (num n) (Fin 1)) (Fin 1));
            std_v = jsqrt variance
        in \<lparr>mean = mean_v, std = std_v,
            data = map (\<lambda>r. PeriodReturn.extend r
                     \<lparr>z = zscore (ret r) mean_v std_v, localMean = None, localStd = None\<rparr>) returns\<rparr>)"

text \<open>
  One round of the loop of \<^verbatim>\<open>computeStatsRolling\<close>, on the loop's variables
  \<^verbatim>\<open>(data, totalMean, totalStd, validCount)\<close>.
\<close>

definition rolling_iter ::
  "PeriodReturn list \<Rightarrow> nat \<Rightarrow> nat
     \<Rightarrow> NormalizedPoint list \<times> js_number \<times> js_number \<times> nat
     \<Rightarrow> NormalizedPoint list \<times> js_number \<times> js_number \<times> nat" where
  "rolling_iter returns windowSize i st =
     (case st of (data_v, totalMean, totalStd, validCount) \<Rightarrow>
      if i < windowSize then
        let slice = map ret (take (i + 1) returns);
            n = length slice;
            mean_v = jdiv (sum_vals slice) (num n);
            variance = (if 1 < n then jdiv (sum_sq_dev slice mean_v) (jsub (num n) (Fin 1))
                        else Fin 0);
            std_v = jsqrt variance;
            z_v = zscore (ret (returns ! i)) mean_v std_v
        in (data_v @ [PeriodReturn.extend (returns ! i)
                      \<lparr>z = z_v, localMean = Some mean_v, localStd = Some std_v\<rparr>],
            jadd totalMean mean_v, jadd totalStd std_v, validCount + 1)
      else
        let slice = map ret (drop (i - windowSize) (take i returns));
            n = length slice;
            mean_v = jdiv (sum_vals slice) (num n);
            variance = jdiv (sum_sq_dev slice mean_v) (js_or (jsub (num n) (Fin 1)) (Fin 1));
            std_v = jsqrt variance;
            z_v = zscore (ret (returns ! i)) mean_v std_v
        in (data_v @ [PeriodReturn.extend (returns ! i)
                      \<lparr>z = z_v, localMean = Some mean_v, localStd = Some std_v\<rparr>],
            jadd totalMean mean_v, jadd totalStd std_v, validCount + 1))"

definition computeStatsRolling :: "PeriodReturn list \<Rightarrow> nat \<Rightarrow> StatsResult" where
  "computeStatsRolling returns windowSize =
     (case fold (rolling_iter returns windowSize) [0..<length returns] ([], Fin 0, Fin 0, 0) of
        (data_v, totalMean, totalStd, validCount) \<Rightarrow>
          \<lparr>mean = (if 0 < validCount then jdiv totalMean (num validCount) else Fin 0),
           std = (if 0 < validCount then jdiv totalStd (num validCount) else Fin 0),
           data = data_v\<rparr>)"

text \<open>
  The point that round \<open>i\<close> of the loop pushes; it does not depend on the loop's variables.
\<close>

definition pushed_point :: "PeriodReturn list \<Rightarrow> nat \<Rightarrow> nat \<Rightarrow> NormalizedPoint" where
  "pushed_point returns windowSize i =
     last (fst (rolling_iter returns windowSize i ([], Fin 0, Fin 0, 0)))"

text \<open>
  The mean and the standard deviation of one slice, as the warm-up branch and the steady
  branch of the loop compute them. The theorems on the windows are stated with them.
\<close>

definition warm_up_stats :: "js_number list \<Rightarrow> js_number \<times> js_number" where
  "warm_up_stats slice =
     (let n = length slice;
          mean_v = jdiv (sum_vals slice) (num n);
          variance = (if 1 < n then jdiv (sum_sq_dev slice mean_v) (jsub (num n) (Fin 1))
                      else Fin 0)
      in (mean_v, jsqrt variance))"

definition steady_stats :: "js_number list \<Rightarrow> js_number \<times> js_number" where
  "steady_stats slice =
     (let n = length slice;
          mean_v = jdiv (sum_vals slice) (num n);
          variance = jdiv (sum_sq_dev slice mean_v) (js_or (jsub (num n) (Fin 1)) (Fin 1))
      in (mean_v, jsqrt variance))"

section \<open>Range filter and signal list\<close>

text \<open>
  \<^verbatim>\<open>filteredData\<close>: the bounds are the strings of the two date inputs, the empty string when
  a bound is not set; strings compare in lexicographic order.
\<close>

definition filteredData :: "('a Dated_scheme) list \<Rightarrow> string \<Rightarrow> string \<Rightarrow> ('a Dated_scheme) list" where
  "filteredData allData startDate endDate =
     (if startDate = [] \<or> endDate = [] then allData
      else filter (\<lambda>d. startDate \<le> date d \<and> date d \<le> endDate) allData)"

text \<open>
  \<^verbatim>\<open>Array.prototype.sort\<close> with a comparison function: a NaN from the comparison counts as
  +0, and an element stays before a later one unless the comparison of the two is positive
  (the sort is stable). When the comparison orders the elements consistently, as it does
  on the signal list, every stable sort returns this list.
\<close>

definition sort_compare :: "('a \<Rightarrow> 'a \<Rightarrow> js_number) \<Rightarrow> 'a \<Rightarrow> 'a \<Rightarrow> js_number" where
  "sort_compare comparefn x y = (let v = comparefn x y in if v = NaN then Fin 0 else v)"

fun js_insert :: "('a \<Rightarrow> 'a \<Rightarrow> js_number) \<Rightarrow> 'a \<Rightarrow> 'a list \<Rightarrow> 'a list" where
  "js_insert comparefn x [] = [x]"
| "js_insert comparefn x (y # ys) =
     (if jlt (Fin 0) (sort_compare comparefn x y) then y # js_insert comparefn x ys
      else x # y # ys)"

definition js_sort :: "('a \<Rightarrow> 'a \<Rightarrow> js_number) \<Rightarrow> 'a list \<Rightarrow> 'a list" where
  "js_sort comparefn xs = foldr (js_insert comparefn) xs []"

text \<open>
  The signal list of \<^verbatim>\<open>App\<close>:
  \<^verbatim>\<open>filteredData.filter((d) => Math.abs(d.z) >= threshold).sort((a, b) => Math.abs(b.z) - Math.abs(a.z))\<close>
\<close>

definition listSignals :: "NormalizedPoint list \<Rightarrow> js_number \<Rightarrow> NormalizedPoint list" where
  "listSignals points threshold =
     js_sort (\<lambda>a b. jsub (jabs (z b)) (jabs (z a)))
       (filter (\<lambda>d. jge (jabs (z d)) threshold) points)"

section \<open>Notions for the statements\<close>

text \<open>\<open>approx4 x c\<close>: the number \<open>x\<close> is the decimal \<open>c\<close> to four decimal places.\<close>

definition approx4 :: "js_number \<Rightarrow> rat \<Rightarrow> bool" where
  "approx4 x c = (case x of Fin q \<Rightarrow> \<bar>q - c\<bar> \<le> 1 / 20000 | NZero \<Rightarrow> \<bar>c\<bar> \<le> 1 / 20000 | _ \<Rightarrow> False)"

text \<open>The magnitude of a z-score as a sort key: smaller keys are larger magnitudes.\<close>

fun magnitude_key :: "js_number \<Rightarrow> rat option" where
  "magnitude_key PInf = None"
| "magnitude_key NInf = None"
| "magnitude_key (Fin q) = Some (- \<bar>q\<bar>)"
| "magnitude_key _ = Some 0"

text \<open>A point that the comparison of the signal list orders: its z-score is a number.\<close>

definition sortable :: "NormalizedPoint \<Rightarrow> bool" where
  "sortable d = (is_double (z d) \<and> z d \<noteq> NaN)"

text \<open>The comparison function of the signal list.\<close>

abbreviation signal_compare :: "NormalizedPoint \<Rightarrow> NormalizedPoint \<Rightarrow> js_number" where
  "signal_compare \<equiv> (\<lambda>a b. jsub (jabs (z b)) (jabs (z a)))"

section \<open>Example inputs\<close>

text \<open>The five closing prices of the scenario of the specification, on five trading days.\<close>

definition prices5 :: "PricePoint list" where
  "prices5 = [\<lparr>date = ''2024-01-02'', close = Fin 100\<rparr>, \<lparr>date = ''2024-01-03'', close = Fin 102\<rparr>,
     \<lparr>date = ''2024-01-04'', close = Fin 101\<rparr>, \<lparr>date = ''2024-01-05'', close = Fin 105\<rparr>,
     \<lparr>date = ''2024-01-08'', close = Fin 90\<rparr>]"

text \<open>Four returns with binary fractions as values.\<close>

definition returns4 :: "PeriodReturn list" where
  "returns4 = [\<lparr>date = ''2024-01-03'', ret = Fin (1 / 4)\<rparr>, \<lparr>date = ''2024-01-04'', ret = Fin (- (1 / 2))\<rparr>,
     \<lparr>date = ''2024-01-05'', ret = Fin (1 / 8)\<rparr>, \<lparr>date = ''2024-01-08'', ret = Fin (3 / 4)\<rparr>]"

text \<open>
  Three returns of 0.1 (the binary64 value nearest to it), two returns of 0.25, and five
  normalized points with the z-scores 0.5, -3, 3, 2.5 and -1.
\<close>

definition tenth3 :: "PeriodReturn list" where
  "tenth3 =
     [\<lparr>date = ''2024-01-03'', ret = Fin (3602879701896397 / 36028797018963968)\<rparr>,
      \<lparr>date = ''2024-01-04'', ret = Fin (3602879701896397 / 36028797018963968)\<rparr>,
      \<lparr>date = ''2024-01-05'', ret = Fin (3602879701896397 / 36028797018963968)\<rparr>]"

definition quarter2 :: "PeriodReturn list" where
  "quarter2 = [\<lparr>date = ''2024-01-03'', ret = Fin (1 / 4)\<rparr>, \<lparr>date = ''2024-01-04'', ret = Fin (1 / 4)\<rparr>]"

definition points5 :: "NormalizedPoint list" where
  "points5 =
     [\<lparr>date = ''2024-01-03'', ret = Fin (1 / 128), z = Fin (1 / 2), localMean = None, localStd = None\<rparr>,
      \<lparr>date = ''2024-01-04'', ret = Fin (- (3 / 64)), z = Fin (- 3), localMean = None, localStd = None\<rparr>,
      \<lparr>date = ''2024-01-05'', ret = Fin (3 / 64), z = Fin 3, localMean = None, localStd = None\<rparr>,
      \<lparr>date = ''2024-01-08'', ret = Fin (5 / 128), z = Fin (5 / 2), localMean = None, localStd = None\<rparr>,
      \<lparr>date = ''2024-01-09'', ret = Fin (- (1 / 64)), z = Fin (- 1), localMean = None, localStd = None\<rparr>]"

section \<open>Rounding\<close>

lemma grid_unit_pos: "0 < grid_unit"
  by (simp only: grid_unit_def zero_less_power_int zero_less_numeral)

lemma two_powi_nat: "0 \<le> k \<Longrightarrow> (2::rat) powi k = 2 ^ nat k"
  by (simp add: power_int_def)

lemma flog2_bounds:
  assumes "0 < q"
  shows "2 powi flog2 q \<le> q \<and> q < 2 powi (flog2 q + 1)"
proof -
  obtain n d where nd: "quotient_of q = (n, d)" by (cases "quotient_of q")
  have d: "0 < d" using quotient_of_denom_pos [OF nd] .
  have q: "q = of_int n / of_int d" using quotient_of_div [OF nd] .
  have n: "0 < n" using assms d q by (simp add: zero_less_divide_iff)
  define bn where "bn = bitlen n"
  define bd where "bd = bitlen d"
  have bn1: "1 \<le> bn" and bd1: "1 \<le> bd"
    using n d unfolding bn_def bd_def by (simp_all add: bitlen_alt_def)
  have nb: "(2::int) ^ nat (bn - 1) \<le> n" "n < 2 ^ nat bn"
    using bitlen_bounds [OF n] by (simp_all add: bn_def)
  have db: "(2::int) ^ nat (bd - 1) \<le> d" "d < 2 ^ nat bd"
    using bitlen_bounds [OF d] by (simp_all add: bd_def)
  have nlo: "(2::rat) powi (bn - 1) \<le> of_int n"
  proof -
    have "(of_int ((2::int) ^ nat (bn - 1)) :: rat) \<le> of_int n" using nb(1) by (simp only: of_int_le_iff)
    then show ?thesis using bn1 by (simp add: two_powi_nat)
  qed
  have nhi: "(of_int n :: rat) < 2 powi bn"
  proof -
    have "(of_int n :: rat) < of_int ((2::int) ^ nat bn)" using nb(2) by (simp only: of_int_less_iff)
    then show ?thesis using bn1 by (simp add: two_powi_nat)
  qed
  have dlo: "(2::rat) powi (bd - 1) \<le> of_int d"
  proof -
    have "(of_int ((2::int) ^ nat (bd - 1)) :: rat) \<le> of_int d" using db(1) by (simp only: of_int_le_iff)
    then show ?thesis using bd1 by (simp add: two_powi_nat)
  qed
  have dhi: "(of_int d :: rat) < 2 powi bd"
  proof -
    have "(of_int d :: rat) < of_int ((2::int) ^ nat bd)" using db(2) by (simp only: of_int_less_iff)
    then show ?thesis using bd1 by (simp add: two_powi_nat)
  qed
  have dpos: "(0::rat) < of_int d" using d by simp
  have npos: "(0::rat) < of_int n" using n by simp
  let ?e = "bn - bd"
  have lo: "2 powi (?e - 1) \<le> q"
  proof -
    have "(2::rat) powi (?e - 1) = 2 powi (bn - 1) / 2 powi bd"
      by (simp add: power_int_diff)
    also have "\<dots> \<le> of_int n / 2 powi bd"
      using nlo by (simp add: divide_right_mono)
    also have "\<dots> \<le> of_int n / of_int d"
      using dhi dpos npos by (simp add: frac_le)
    finally show ?thesis by (simp add: q)
  qed
  have hi: "q < 2 powi (?e + 1)"
  proof -
    have "q = of_int n / of_int d" by (rule q)
    also have "\<dots> < 2 powi bn / of_int d"
      using nhi dpos by (simp add: divide_strict_right_mono)
    also have "\<dots> \<le> 2 powi bn / 2 powi (bd - 1)"
      using dlo by (simp add: frac_le)
    also have "\<dots> = 2 powi (?e + 1)"
      by (simp add: power_int_diff [symmetric] algebra_simps)
    finally show ?thesis .
  qed
  have fl: "flog2 q = (if 2 powi ?e \<le> q then ?e else ?e - 1)"
    by (simp add: flog2_def nd bn_def bd_def Let_def)
  show ?thesis
  proof (cases "2 powi ?e \<le> q")
    case True
    with fl hi show ?thesis by simp
  next
    case False
    with fl lo show ?thesis by simp
  qed
qed

lemma two_powi_less_cancel:
  assumes "(2::rat) powi a < 2 powi b"
  shows "a < b"
proof (rule ccontr)
  assume "\<not> a < b"
  then have "b \<le> a" by simp
  then have "(2::rat) powi b \<le> 2 powi a" by (intro power_int_increasing) simp_all
  with assms show False by simp
qed

lemma flog2_unique:
  assumes "0 < q" and "2 powi e \<le> q" and "q < 2 powi (e + 1)"
  shows "flog2 q = e"
proof -
  from flog2_bounds [OF assms(1)] have b: "2 powi flog2 q \<le> q" "q < 2 powi (flog2 q + 1)"
    by simp_all
  have "(2::rat) powi e < 2 powi (flog2 q + 1)" using assms(2) b(2) by simp
  then have 1: "e < flog2 q + 1" by (rule two_powi_less_cancel)
  have "(2::rat) powi flog2 q < 2 powi (e + 1)" using assms(3) b(1) by simp
  then have 2: "flog2 q < e + 1" by (rule two_powi_less_cancel)
  from 1 2 show ?thesis by simp
qed

lemma round_half_even_ge_floor: "\<lfloor>x\<rfloor> \<le> round_half_even x"
  by (simp add: round_half_even_def Let_def)

lemma round_half_even_of_int [simp]: "round_half_even (of_int k) = k"
  by (simp add: round_half_even_def Let_def)

lemma round_half_even_ge1: "1 \<le> x \<Longrightarrow> 1 \<le> round_half_even x"
  using round_half_even_ge_floor [of x] by (smt (verit) le_floor_iff of_int_1)

lemma round_ne_cases:
  assumes "q \<noteq> 0"
  obtains e m where "e = max (flog2 \<bar>q\<bar>) (- 1022)"
    and "m = round_half_even (\<bar>q\<bar> / 2 powi (e - 52))"
    and "round_ne q =
      (if of_int m * (2::rat) powi (e - 52) = 0 then (if q < 0 then NZero else Fin 0)
       else if 1024 \<le> flog2 (of_int m * 2 powi (e - 52)) then (if q < 0 then NInf else PInf)
       else Fin (if q < 0 then - (of_int m * 2 powi (e - 52)) else of_int m * 2 powi (e - 52)))"
  using assms by (simp add: round_ne_def Let_def)

lemma normal_quotient_ge1:
  assumes "(2::rat) powi e \<le> a"
  shows "1 \<le> a / 2 powi (e - 52)"
proof -
  have "(2::rat) powi (e - 52) \<le> 2 powi e" by (intro power_int_increasing) simp_all
  also note assms
  finally show ?thesis by (simp add: pos_le_divide_eq)
qed

lemma floor_rat_numeral [simp]: "\<lfloor>numeral a / numeral b :: rat\<rfloor> = numeral a div numeral b"
  using floor_divide_of_int_eq [of "numeral a" "numeral b", where ?'a = rat] by simp

lemma round_ne_mantissa_pos:
  assumes "0 < a" and "on_grid a"
  shows "1 \<le> round_half_even (a / 2 powi (max (flog2 a) (- 1022) - 52))"
proof (cases "- 1022 \<le> flog2 a")
  case True
  then have e: "max (flog2 a) (- 1022) = flog2 a" by simp
  have "2 powi flog2 a \<le> a" using flog2_bounds [OF assms(1)] by simp
  then have "(1::rat) \<le> a / 2 powi (flog2 a - 52)" by (rule normal_quotient_ge1)
  then show ?thesis unfolding e by (rule round_half_even_ge1)
next
  case False
  then have e: "max (flog2 a) (- 1022) - 52 = - 1074" by simp
  from assms(2) obtain k :: int where k: "a = of_int k * grid_unit"
    by (auto simp: on_grid_def)
  have "0 < k" using assms(1) k grid_unit_pos by (simp add: zero_less_mult_iff)
  have "a / grid_unit = of_int k" using k grid_unit_pos by simp
  then have "round_half_even (a / grid_unit) = k" by simp
  then show ?thesis unfolding e grid_unit_def using \<open>0 < k\<close> by (simp only:)
qed

lemma round_ne_pos:
  assumes "0 < q" and "on_grid q"
  shows "round_ne q = PInf \<or> (\<exists>r. 0 < r \<and> round_ne q = Fin r)"
proof -
  from assms(1) have q0: "q \<noteq> 0" and a: "\<bar>q\<bar> = q" by simp_all
  obtain e m where e: "e = max (flog2 \<bar>q\<bar>) (- 1022)"
    and m: "m = round_half_even (\<bar>q\<bar> / 2 powi (e - 52))"
    and r: "round_ne q =
      (if of_int m * (2::rat) powi (e - 52) = 0 then (if q < 0 then NZero else Fin 0)
       else if 1024 \<le> flog2 (of_int m * 2 powi (e - 52)) then (if q < 0 then NInf else PInf)
       else Fin (if q < 0 then - (of_int m * 2 powi (e - 52)) else of_int m * 2 powi (e - 52)))"
    using round_ne_cases [OF q0] by blast
  have "1 \<le> m" unfolding m e a using round_ne_mantissa_pos [OF assms] .
  then have "(0::rat) < of_int m * 2 powi (e - 52)" by (simp add: zero_less_mult_iff)
  then show ?thesis using r assms(1) by auto
qed

lemma round_ne_neg:
  assumes "q < 0"
  shows "round_ne q = NInf \<or> round_ne q = NZero \<or> (\<exists>r. r < 0 \<and> round_ne q = Fin r)"
proof -
  from assms have q0: "q \<noteq> 0" by simp
  obtain e m where e: "e = max (flog2 \<bar>q\<bar>) (- 1022)"
    and m: "m = round_half_even (\<bar>q\<bar> / 2 powi (e - 52))"
    and r: "round_ne q =
      (if of_int m * (2::rat) powi (e - 52) = 0 then (if q < 0 then NZero else Fin 0)
       else if 1024 \<le> flog2 (of_int m * 2 powi (e - 52)) then (if q < 0 then NInf else PInf)
       else Fin (if q < 0 then - (of_int m * 2 powi (e - 52)) else of_int m * 2 powi (e - 52)))"
    using round_ne_cases [OF q0] by blast
  have "(0::rat) \<le> \<bar>q\<bar> / 2 powi (e - 52)" by simp
  then have "0 \<le> \<lfloor>\<bar>q\<bar> / 2 powi (e - 52)\<rfloor>" by simp
  then have "0 \<le> m" unfolding m using round_half_even_ge_floor order_trans by blast
  then have "(0::rat) \<le> of_int m * 2 powi (e - 52)" by simp
  then show ?thesis using r assms by (auto simp: less_le)
qed

lemma round_ne_fix_on_grid:
  assumes "round_ne q = Fin q"
  shows "on_grid q"
proof (cases "q = 0")
  case True
  then have "q = of_int 0 * grid_unit" by simp
  then show ?thesis unfolding on_grid_def by blast
next
  case False
  obtain e m where e: "e = max (flog2 \<bar>q\<bar>) (- 1022)"
    and m: "m = round_half_even (\<bar>q\<bar> / 2 powi (e - 52))"
    and r: "round_ne q =
      (if of_int m * (2::rat) powi (e - 52) = 0 then (if q < 0 then NZero else Fin 0)
       else if 1024 \<le> flog2 (of_int m * 2 powi (e - 52)) then (if q < 0 then NInf else PInf)
       else Fin (if q < 0 then - (of_int m * 2 powi (e - 52)) else of_int m * 2 powi (e - 52)))"
    using round_ne_cases [OF False] by blast
  have e1022: "- 1022 \<le> e" using e by simp
  have "q = of_int m * 2 powi (e - 52) \<or> q = - (of_int m * 2 powi (e - 52))"
    using r assms False by (auto split: if_splits)
  then obtain s :: int where s: "q = of_int s * 2 powi (e - 52)"
    by (metis of_int_minus mult_minus_left)
  have "(2::rat) powi ((e + 1022) + (- 1074)) = 2 powi (e + 1022) * 2 powi (- 1074)"
    by (rule power_int_add) simp
  moreover have "(e + 1022) + (- 1074) = e - 52" by simp
  ultimately have "(2::rat) powi (e - 52) = 2 powi (e + 1022) * grid_unit"
    by (simp only: grid_unit_def)
  moreover have "(2::rat) powi (e + 1022) = of_int (2 ^ nat (e + 1022))"
    using e1022 by (simp add: two_powi_nat)
  ultimately have "q = of_int (s * 2 ^ nat (e + 1022)) * grid_unit"
    using s by simp
  then show ?thesis unfolding on_grid_def by blast
qed

lemma on_grid_diff:
  assumes "on_grid a" and "on_grid b"
  shows "on_grid (a - b)"
proof -
  from assms obtain k l :: int where "a = of_int k * grid_unit" "b = of_int l * grid_unit"
    unfolding on_grid_def by blast
  then have "a - b = of_int (k - l) * grid_unit" by (simp add: algebra_simps)
  then show ?thesis unfolding on_grid_def by blast
qed

lemma round_ne_eqI:
  assumes "0 < a" and "- 1022 \<le> e" and "2 powi e \<le> a" and "a < 2 powi (e + 1)"
    and "round_half_even (a / 2 powi (e - 52)) = m"
    and "of_int m * 2 powi (e - 52) < (2::rat) powi 1024"
  shows "round_ne a = Fin (of_int m * 2 powi (e - 52))"
    and "round_ne (- a) = Fin (- (of_int m * 2 powi (e - 52)))"
proof -
  have fl: "flog2 a = e" using assms(1,3,4) by (rule flog2_unique)
  then have mx: "max (flog2 a) (- 1022) = e" using assms(2) by simp
  have "(1::rat) \<le> a / 2 powi (e - 52)" using assms(3) by (rule normal_quotient_ge1)
  then have "1 \<le> m" using round_half_even_ge1 assms(5) by blast
  then have rpos: "(0::rat) < of_int m * 2 powi (e - 52)" by (simp add: zero_less_mult_iff)
  have "flog2 (of_int m * 2 powi (e - 52)) < 1024"
  proof -
    have "(2::rat) powi flog2 (of_int m * 2 powi (e - 52)) \<le> of_int m * 2 powi (e - 52)"
      using flog2_bounds [OF rpos] by simp
    then have "(2::rat) powi flog2 (of_int m * 2 powi (e - 52)) < 2 powi 1024"
      using assms(6) by simp
    then show ?thesis by (rule two_powi_less_cancel)
  qed
  then have nov: "\<not> 1024 \<le> flog2 (of_int m * 2 powi (e - 52))" by simp
  have m0: "m \<noteq> 0" using \<open>1 \<le> m\<close> by simp
  show "round_ne a = Fin (of_int m * 2 powi (e - 52))"
    using assms(1,5) m0 nov by (simp add: round_ne_def Let_def mx)
  show "round_ne (- a) = Fin (- (of_int m * 2 powi (e - 52)))"
    using assms(1,5) m0 nov by (simp add: round_ne_def Let_def mx)
qed

lemma round_ne_0 [simp]: "round_ne 0 = Fin 0"
  by (simp add: round_ne_def)

lemma round_half_even_nearest: "\<bar>of_int (round_half_even x) - x\<bar> \<le> 1 / 2"
proof -
  have "of_int \<lfloor>x\<rfloor> \<le> x" "x < of_int \<lfloor>x\<rfloor> + 1" by linarith+
  then show ?thesis by (auto simp: round_half_even_def Let_def abs_le_iff)
qed

lemma isqrt_bits_correct:
  assumes "r\<^sup>2 \<le> n" and "n < (r + 2 ^ b)\<^sup>2" and "0 \<le> r"
  shows "(isqrt_bits b n r)\<^sup>2 \<le> n \<and> n < (isqrt_bits b n r + 1)\<^sup>2 \<and> 0 \<le> isqrt_bits b n r"
  using assms
proof (induction b arbitrary: r)
  case 0
  then show ?case by simp
next
  case (Suc b)
  show ?case
  proof (cases "(r + 2 ^ b)\<^sup>2 \<le> n")
    case True
    have "r + 2 ^ b + 2 ^ b = r + 2 ^ Suc b" by simp
    then have "n < (r + 2 ^ b + 2 ^ b)\<^sup>2" using Suc.prems(2) by (simp only:)
    with True Suc.prems(3) Suc.IH [of "r + 2 ^ b"] show ?thesis by simp
  next
    case False
    with Suc.prems Suc.IH [of r] show ?thesis by simp
  qed
qed

lemma isqrt_correct:
  assumes "0 \<le> n"
  shows "(isqrt n)\<^sup>2 \<le> n \<and> n < (isqrt n + 1)\<^sup>2 \<and> 0 \<le> isqrt n"
proof -
  have "n < 2 ^ nat (bitlen n)"
  proof (cases "n = 0")
    case True
    then show ?thesis by simp
  next
    case False
    with assms have "0 < n" by simp
    then show ?thesis using bitlen_bounds by blast
  qed
  also have "(2::int) ^ nat (bitlen n) \<le> (2 ^ nat (bitlen n))\<^sup>2"
    by (simp add: power2_eq_square)
  finally have "n < (0 + 2 ^ nat (bitlen n))\<^sup>2" by simp
  then show ?thesis
    unfolding isqrt_def using assms by (intro isqrt_bits_correct) simp_all
qed

text \<open>The square root is rounded to a nearest point of its grid.\<close>

lemma sqrt_ne_nearest:
  assumes "0 < q"
  shows "\<exists>r u. sqrt_ne q = Fin r \<and> u = 2 powi (flog2 q div 2 - 52) \<and> 0 < r
          \<and> (r - u / 2)\<^sup>2 \<le> q \<and> q \<le> (r + u / 2)\<^sup>2 \<and> (\<exists>k::int. r = of_int k * u)"
proof -
  define u :: rat where "u = 2 powi (flog2 q div 2 - 52)"
  define N where "N = q / (u * u)"
  define m where "m = isqrt \<lfloor>N\<rfloor>"
  define m' where "m' = (if (of_int m + 1 / 2)\<^sup>2 < N then m + 1 else m)"
  have u: "0 < u" by (simp add: u_def)
  have N: "0 < N" using assms u by (simp add: N_def)
  then have fl: "0 \<le> \<lfloor>N\<rfloor>" by simp
  from isqrt_correct [OF fl] have m: "m\<^sup>2 \<le> \<lfloor>N\<rfloor>" "\<lfloor>N\<rfloor> < (m + 1)\<^sup>2" "0 \<le> m"
    by (simp_all add: m_def)
  have lo: "(of_int m)\<^sup>2 \<le> N"
  proof -
    have "(of_int (m\<^sup>2) :: rat) \<le> of_int \<lfloor>N\<rfloor>" using m(1) by (simp only: of_int_le_iff)
    also have "\<dots> \<le> N" by simp
    finally show ?thesis by simp
  qed
  have hi: "N < (of_int m + 1)\<^sup>2"
  proof -
    have "N < of_int (\<lfloor>N\<rfloor> + 1)" by linarith
    also have "\<dots> \<le> of_int ((m + 1)\<^sup>2)" using m(2) by (simp only: of_int_le_iff)
    finally show ?thesis by simp
  qed
  have m1: "1 \<le> m"
  proof (rule ccontr)
    assume "\<not> 1 \<le> m"
    with m(3) have "m = 0" by simp
    with hi have "N < 1" by simp
    moreover have "1 \<le> N"
    proof -
      let ?e = "flog2 q"
      have b: "2 powi ?e \<le> q" using flog2_bounds [OF assms] by simp
      have "u * u = 2 powi (2 * (?e div 2 - 52))"
        by (simp add: u_def power_int_add [symmetric])
      also have "\<dots> \<le> 2 powi ?e" by (intro power_int_increasing) simp_all
      finally have "u * u \<le> q" using b by simp
      then show ?thesis using u by (simp add: N_def)
    qed
    ultimately show False by simp
  qed
  have near: "(of_int m' - 1 / 2)\<^sup>2 \<le> N \<and> N \<le> (of_int m' + 1 / 2)\<^sup>2"
  proof (cases "(of_int m + 1 / 2)\<^sup>2 < N")
    case True
    then have m': "m' = m + 1" by (simp add: m'_def)
    have "(of_int m + 1 :: rat)\<^sup>2 \<le> (of_int m + 1 + 1 / 2)\<^sup>2"
      using m(3) by (intro power_mono) simp_all
    with True hi show ?thesis by (simp add: m' algebra_simps)
  next
    case False
    then have m': "m' = m" by (simp add: m'_def)
    have "(of_int m - 1 / 2 :: rat)\<^sup>2 \<le> (of_int m)\<^sup>2"
      using m1 by (intro power_mono) simp_all
    with False lo show ?thesis by (simp add: m')
  qed
  have m'pos: "0 < m'" using m1 by (simp add: m'_def)
  have s: "sqrt_ne q = Fin (of_int m' * u)"
    by (simp add: sqrt_ne_def Let_def u_def N_def m_def m'_def)
  have q: "q = N * (u * u)" using u by (simp add: N_def)
  have "(of_int m' * u - u / 2)\<^sup>2 = (of_int m' - 1 / 2)\<^sup>2 * (u * u)"
    by (simp add: power2_eq_square algebra_simps)
  moreover have "(of_int m' * u + u / 2)\<^sup>2 = (of_int m' + 1 / 2)\<^sup>2 * (u * u)"
    by (simp add: power2_eq_square algebra_simps)
  ultimately have "(of_int m' * u - u / 2)\<^sup>2 \<le> q \<and> q \<le> (of_int m' * u + u / 2)\<^sup>2"
    using near u by (simp add: q mult_right_mono)
  moreover have "(0::rat) < of_int m' * u" using m'pos u by simp
  ultimately show ?thesis using s u_def by blast
qed

text \<open>A finite result of rounding is within half a grid step of the exact value.\<close>

lemma round_ne_nearest:
  assumes "round_ne q = Fin r"
  shows "\<bar>r - q\<bar> \<le> 2 powi (max (flog2 \<bar>q\<bar>) (- 1022) - 52) / 2"
proof (cases "q = 0")
  case True
  with assms show ?thesis by simp
next
  case False
  define u :: rat where "u = 2 powi (max (flog2 \<bar>q\<bar>) (- 1022) - 52)"
  define m where "m = round_half_even (\<bar>q\<bar> / u)"
  have u: "0 < u" by (simp add: u_def)
  have r: "r = (if q < 0 then - (of_int m * u) else of_int m * u)"
    using assms False by (auto simp: round_ne_def Let_def u_def m_def split: if_splits)
  have "\<bar>of_int m - \<bar>q\<bar> / u\<bar> \<le> 1 / 2" unfolding m_def by (rule round_half_even_nearest)
  then have "\<bar>of_int m - \<bar>q\<bar> / u\<bar> * u \<le> 1 / 2 * u" using u by (simp only: mult_le_cancel_right_pos)
  moreover have "\<bar>of_int m - \<bar>q\<bar> / u\<bar> * u = \<bar>of_int m * u - \<bar>q\<bar>\<bar>"
  proof -
    have "\<bar>of_int m - \<bar>q\<bar> / u\<bar> * u = \<bar>(of_int m - \<bar>q\<bar> / u) * u\<bar>"
      using u by (simp add: abs_mult)
    also have "(of_int m - \<bar>q\<bar> / u) * u = of_int m * u - \<bar>q\<bar>"
      using u by (simp add: algebra_simps)
    finally show ?thesis .
  qed
  ultimately have "\<bar>of_int m * u - \<bar>q\<bar>\<bar> \<le> u / 2" by simp
  then have "\<bar>r - q\<bar> \<le> u / 2"
  proof (cases "q < 0")
    case True
    assume a: "\<bar>of_int m * u - \<bar>q\<bar>\<bar> \<le> u / 2"
    have "r - q = - (of_int m * u - \<bar>q\<bar>)" using True by (simp add: r)
    then have "\<bar>r - q\<bar> = \<bar>of_int m * u - \<bar>q\<bar>\<bar>" by (simp only: abs_minus_cancel)
    with a show ?thesis by simp
  next
    case False
    assume a: "\<bar>of_int m * u - \<bar>q\<bar>\<bar> \<le> u / 2"
    have "r - q = of_int m * u - \<bar>q\<bar>" using False by (simp add: r)
    with a show ?thesis by simp
  qed
  then show ?thesis by (simp add: u_def)
qed

section \<open>The return calculator\<close>

lemma step_of_pos: "0 < step_of period"
  by (simp add: step_of_def)

declare computeReturns_loop.simps [simp del]

lemma computeReturns_loop_length:
  "length (computeReturns_loop prices period i) =
     (if i < length prices then (length prices - 1 - i) div step_of period + 1 else 0)"
proof (induction prices period i rule: computeReturns_loop.induct)
  case (1 prices period i)
  let ?s = "step_of period"
  have s: "0 < ?s" by (rule step_of_pos)
  show ?case
  proof (cases "i < length prices")
    case False
    then show ?thesis by (simp add: computeReturns_loop.simps [of prices period i])
  next
    case True
    note IH = "1.IH" [OF refl True]
    show ?thesis
    proof (cases "i + ?s < length prices")
      case True
      then have "length prices - 1 - i = (length prices - 1 - (i + ?s)) + ?s" by simp
      then have "(length prices - 1 - i) div ?s = (length prices - 1 - (i + ?s)) div ?s + 1"
        using s by (metis div_add_self2 less_numeral_extra(3))
      with True \<open>i < length prices\<close> IH show ?thesis
        by (simp add: computeReturns_loop.simps [of prices period i] Let_def)
    next
      case False
      then have "(length prices - 1 - i) div ?s = 0" using \<open>i < length prices\<close> by simp
      with False \<open>i < length prices\<close> IH show ?thesis
        by (simp add: computeReturns_loop.simps [of prices period i] Let_def)
    qed
  qed
qed

lemma computeReturns_loop_dates:
  "\<exists>js. map date (computeReturns_loop prices period i) = map (\<lambda>j. date (prices ! j)) js
        \<and> sorted_wrt (<) js \<and> (\<forall>j\<in>set js. i \<le> j \<and> j < length prices)"
proof (induction prices period i rule: computeReturns_loop.induct)
  case (1 prices period i)
  let ?s = "step_of period"
  have s: "0 < ?s" by (rule step_of_pos)
  show ?case
  proof (cases "i < length prices")
    case False
    then show ?thesis by (simp add: computeReturns_loop.simps [of prices period i])
  next
    case True
    from "1.IH" [OF refl True] obtain js where
      js: "map date (computeReturns_loop prices period (i + ?s)) = map (\<lambda>j. date (prices ! j)) js"
        "sorted_wrt (<) js" "\<forall>j\<in>set js. i + ?s \<le> j \<and> j < length prices"
      by blast
    have "map date (computeReturns_loop prices period i) = map (\<lambda>j. date (prices ! j)) (i # js)"
      using True js(1) by (simp add: computeReturns_loop.simps [of prices period i] Let_def)
    moreover have "sorted_wrt (<) (i # js)" using js(2,3) s by auto
    moreover have "\<forall>j\<in>set (i # js). i \<le> j \<and> j < length prices" using js(3) True by auto
    ultimately show ?thesis by blast
  qed
qed

lemma sorted_wrt_nth_map:
  assumes "sorted_wrt (<) (map f xs)" "sorted_wrt (<) js" "\<forall>j\<in>set js. j < length xs"
  shows "sorted_wrt (<) (map (\<lambda>j. f (xs ! j)) (js :: nat list))"
  using assms(2,3)
proof (induction js)
  case Nil
  then show ?case by simp
next
  case (Cons j js)
  have "f (xs ! j) < f (xs ! k)" if "k \<in> set js" for k
  proof -
    from Cons.prems that have "j < k" "k < length xs" by auto
    with assms(1) show ?thesis
      using sorted_wrt_nth_less [of "(<)" "map f xs" j k] by simp
  qed
  with Cons show ?case by (auto simp: sorted_wrt_map)
qed

text \<open>
  C1. For a non-empty price sequence with strictly ascending dates, \<open>computeReturns\<close> returns
  \<open>floor((N - 1) / step)\<close> returns, where \<open>N\<close> is the number of prices and the step is 1 for
  daily, 5 for weekly and 21 for monthly; the dates of the returns are strictly ascending;
  and the result is empty when \<open>N \<le> step\<close>.
\<close>

theorem computeReturns_length_and_order:
  assumes "prices \<noteq> []" and "sorted_wrt (<) (map date prices)"
  shows "length (computeReturns prices period) = (length prices - 1) div step_of period
       \<and> sorted_wrt (<) (map date (computeReturns prices period))
       \<and> (length prices \<le> step_of period \<longrightarrow> computeReturns prices period = [])
       \<and> step_of ''daily'' = 1 \<and> step_of ''weekly'' = 5 \<and> step_of ''monthly'' = 21"
proof -
  let ?s = "step_of period"
  have s: "0 < ?s" by (rule step_of_pos)
  have len: "length (computeReturns prices period) = (length prices - 1) div ?s"
  proof (cases "?s < length prices")
    case True
    then have "length prices - 1 = (length prices - 1 - ?s) + ?s" by simp
    then have "(length prices - 1) div ?s = (length prices - 1 - ?s) div ?s + 1"
      using s by (metis div_add_self2 less_numeral_extra(3))
    with True show ?thesis by (simp add: computeReturns_def computeReturns_loop_length)
  next
    case False
    with assms(1) have "(length prices - 1) div ?s = 0" by (cases prices) auto
    with False show ?thesis by (simp add: computeReturns_def computeReturns_loop_length)
  qed
  obtain js where js: "map date (computeReturns prices period) = map (\<lambda>j. date (prices ! j)) js"
      "sorted_wrt (<) js" "\<forall>j\<in>set js. step_of period \<le> j \<and> j < length prices"
    unfolding computeReturns_def using computeReturns_loop_dates by blast
  have ord: "sorted_wrt (<) (map date (computeReturns prices period))"
    unfolding js(1) using sorted_wrt_nth_map [OF assms(2) js(2)] js(3) by simp
  have emp: "length prices \<le> ?s \<longrightarrow> computeReturns prices period = []"
    by (simp add: computeReturns_def computeReturns_loop.simps [of prices period ?s])
  show ?thesis using len ord emp by (simp add: step_of_def)
qed

theorem computeReturns_length_and_order_witness:
  "prices5 \<noteq> [] \<and> sorted_wrt (<) (map date prices5)
   \<and> length (computeReturns prices5 ''daily'') = 4
   \<and> sorted_wrt (<) (map date (computeReturns prices5 ''daily''))
   \<and> length (computeReturns prices5 ''monthly'') = 0"
proof -
  have ne: "prices5 \<noteq> []" by (simp add: prices5_def)
  have so: "sorted_wrt (<) (map date prices5)" by (simp add: prices5_def)
  have len: "length prices5 = 5" by (simp add: prices5_def)
  show ?thesis
    using computeReturns_length_and_order [OF ne so, of "''daily''"]
      computeReturns_length_and_order [OF ne so, of "''monthly''"] ne so len
    by (simp add: step_of_def)
qed

section \<open>The rolling-window normalizer, point by point\<close>

lemma rolling_iter_fst:
  "fst (rolling_iter returns windowSize i st) = fst st @ [pushed_point returns windowSize i]"
  by (cases st) (simp add: rolling_iter_def pushed_point_def Let_def)

lemma rolling_fold_fst:
  "fst (fold (rolling_iter returns windowSize) [0..<k] st)
     = fst st @ map (pushed_point returns windowSize) [0..<k]"
  by (induction k) (simp_all add: rolling_iter_fst)

lemma computeStatsRolling_data:
  "data (computeStatsRolling returns windowSize)
     = map (pushed_point returns windowSize) [0..<length returns]"
proof -
  obtain d tm ts vc where
    f: "fold (rolling_iter returns windowSize) [0..<length returns] ([], Fin 0, Fin 0, 0)
          = (d, tm, ts, vc)"
    by (metis prod_cases4)
  have "d = map (pushed_point returns windowSize) [0..<length returns]"
    using rolling_fold_fst [of returns windowSize "length returns" "([], Fin 0, Fin 0, 0)"] f
    by simp
  then show ?thesis by (simp add: computeStatsRolling_def f)
qed

lemma extend_fields [simp]:
  "date (PeriodReturn.extend r m) = date r"
  "ret (PeriodReturn.extend r m) = ret r"
  "z (PeriodReturn.extend r \<lparr>z = a, localMean = b, localStd = c\<rparr>) = a"
  "localMean (PeriodReturn.extend r \<lparr>z = a, localMean = b, localStd = c\<rparr>) = b"
  "localStd (PeriodReturn.extend r \<lparr>z = a, localMean = b, localStd = c\<rparr>) = c"
  by (simp_all add: PeriodReturn.extend_def)

lemma pushed_point_warm:
  assumes "i < windowSize"
  shows "pushed_point returns windowSize i =
     (case warm_up_stats (map ret (take (i + 1) returns)) of (mean_v, std_v) \<Rightarrow>
        PeriodReturn.extend (returns ! i)
          \<lparr>z = zscore (ret (returns ! i)) mean_v std_v,
           localMean = Some mean_v, localStd = Some std_v\<rparr>)"
  using assms by (simp add: pushed_point_def rolling_iter_def warm_up_stats_def Let_def)

lemma pushed_point_steady:
  assumes "windowSize \<le> i"
  shows "pushed_point returns windowSize i =
     (case steady_stats (map ret (drop (i - windowSize) (take i returns))) of (mean_v, std_v) \<Rightarrow>
        PeriodReturn.extend (returns ! i)
          \<lparr>z = zscore (ret (returns ! i)) mean_v std_v,
           localMean = Some mean_v, localStd = Some std_v\<rparr>)"
  using assms by (simp add: pushed_point_def rolling_iter_def steady_stats_def Let_def)

lemma pushed_point_frame:
  "date (pushed_point returns windowSize i) = date (returns ! i)
   \<and> ret (pushed_point returns windowSize i) = ret (returns ! i)"
  by (cases "i < windowSize")
     (simp_all add: pushed_point_warm pushed_point_steady split: prod.split)

text \<open>
  C2. In the steady region (\<open>windowSize \<le> i\<close>) the \<open>localMean\<close> and \<open>localStd\<close> of point \<open>i\<close>
  are the same for any two return sequences that agree on \<open>returns[i - windowSize .. i)\<close>;
  in particular they do not change when \<open>returns[i].ret\<close> is replaced by any value.
\<close>

theorem rolling_causal:
  assumes "windowSize \<le> i" and "i < length returns"
  shows "(\<forall>returns'. i < length returns'
            \<and> map ret (drop (i - windowSize) (take i returns'))
                = map ret (drop (i - windowSize) (take i returns))
          \<longrightarrow> localMean (data (computeStatsRolling returns' windowSize) ! i)
                = localMean (data (computeStatsRolling returns windowSize) ! i)
            \<and> localStd (data (computeStatsRolling returns' windowSize) ! i)
                = localStd (data (computeStatsRolling returns windowSize) ! i))
       \<and> (\<forall>v. localMean (data (computeStatsRolling
                               (returns[i := (returns ! i)\<lparr>ret := v\<rparr>]) windowSize) ! i)
                = localMean (data (computeStatsRolling returns windowSize) ! i)
            \<and> localStd (data (computeStatsRolling
                               (returns[i := (returns ! i)\<lparr>ret := v\<rparr>]) windowSize) ! i)
                = localStd (data (computeStatsRolling returns windowSize) ! i))
       \<and> localMean (data (computeStatsRolling returns windowSize) ! i) \<noteq> None
       \<and> localStd (data (computeStatsRolling returns windowSize) ! i) \<noteq> None"
proof -
  have gen: "localMean (data (computeStatsRolling returns' windowSize) ! i)
                = localMean (data (computeStatsRolling returns windowSize) ! i)
            \<and> localStd (data (computeStatsRolling returns' windowSize) ! i)
                = localStd (data (computeStatsRolling returns windowSize) ! i)"
    if "i < length returns'"
      "map ret (drop (i - windowSize) (take i returns'))
         = map ret (drop (i - windowSize) (take i returns))"
    for returns'
    using that assms
    by (simp add: computeStatsRolling_data pushed_point_steady split: prod.split)
  have upd: "map ret (drop (i - windowSize) (take i (returns[i := r])))
      = map ret (drop (i - windowSize) (take i returns))" for r
    by simp
  have some: "localMean (data (computeStatsRolling returns windowSize) ! i) \<noteq> None
       \<and> localStd (data (computeStatsRolling returns windowSize) ! i) \<noteq> None"
    using assms by (simp add: computeStatsRolling_data pushed_point_steady split: prod.split)
  show ?thesis
    using gen upd some assms(2) by (metis length_list_update)
qed

theorem rolling_causal_witness:
  "(2::nat) \<le> 2 \<and> 2 < length returns4
   \<and> localMean (data (computeStatsRolling (returns4[2 := (returns4 ! 2)\<lparr>ret := Fin 100\<rparr>]) 2) ! 2)
       = localMean (data (computeStatsRolling returns4 2) ! 2)
   \<and> localStd (data (computeStatsRolling (returns4[2 := (returns4 ! 2)\<lparr>ret := Fin 100\<rparr>]) 2) ! 2)
       = localStd (data (computeStatsRolling returns4 2) ! 2)"
proof -
  have len: "2 < length returns4" by (simp add: returns4_def)
  have le: "(2::nat) \<le> 2" by simp
  note t = rolling_causal [OF le len, THEN conjunct2, THEN conjunct1, THEN spec, of "Fin 100"]
  show ?thesis using t len by blast
qed

text \<open>
  C3. In the warm-up region (\<open>i < windowSize\<close>) point \<open>i\<close> is normalized with the statistics
  of the expanding window \<open>returns[0..i]\<close>, of length \<open>i + 1\<close>. With \<open>windowSize = 2\<close> on four
  returns, points 0 and 1 use the expanding windows \<open>[returns[0]]\<close> and
  \<open>[returns[0], returns[1]]\<close>, point 2 uses \<open>[returns[0], returns[1]]\<close> and point 3 uses
  \<open>[returns[1], returns[2]]\<close>.
\<close>

theorem rolling_warm_up_window:
  "(\<forall>i. i < windowSize \<and> i < length returns \<longrightarrow>
      (let slice = map ret (take (i + 1) returns);
           p = data (computeStatsRolling returns windowSize) ! i
       in length slice = i + 1
          \<and> (localMean p, localStd p) = map_prod Some Some (warm_up_stats slice)
          \<and> z p = zscore (ret (returns ! i)) (fst (warm_up_stats slice))
                     (snd (warm_up_stats slice))))
   \<and> (let out = data (computeStatsRolling [a, b, c, d] 2)
      in (localMean (out ! 0), localStd (out ! 0)) = map_prod Some Some (warm_up_stats [ret a])
       \<and> (localMean (out ! 1), localStd (out ! 1))
           = map_prod Some Some (warm_up_stats [ret a, ret b])
       \<and> (localMean (out ! 2), localStd (out ! 2))
           = map_prod Some Some (steady_stats [ret a, ret b])
       \<and> (localMean (out ! 3), localStd (out ! 3))
           = map_prod Some Some (steady_stats [ret b, ret c]))"
proof -
  have gen: "\<forall>i. i < windowSize \<and> i < length returns \<longrightarrow>
      (let slice = map ret (take (i + 1) returns);
           p = data (computeStatsRolling returns windowSize) ! i
       in length slice = i + 1
          \<and> (localMean p, localStd p) = map_prod Some Some (warm_up_stats slice)
          \<and> z p = zscore (ret (returns ! i)) (fst (warm_up_stats slice))
                     (snd (warm_up_stats slice)))"
    by (simp add: computeStatsRolling_data pushed_point_warm Let_def split: prod.split)
  have idx: "[0..<length [a, b, c, d]] = [0, 1, 2, 3]"
    by (simp add: upt_rec)
  have p0: "pushed_point [a, b, c, d] 2 0 = (case warm_up_stats [ret a] of (mean_v, std_v) \<Rightarrow>
        PeriodReturn.extend a \<lparr>z = zscore (ret a) mean_v std_v,
           localMean = Some mean_v, localStd = Some std_v\<rparr>)"
    using pushed_point_warm [of 0 2 "[a, b, c, d]"] by simp
  have p1: "pushed_point [a, b, c, d] 2 (Suc 0) = (case warm_up_stats [ret a, ret b] of (mean_v, std_v) \<Rightarrow>
        PeriodReturn.extend b \<lparr>z = zscore (ret b) mean_v std_v,
           localMean = Some mean_v, localStd = Some std_v\<rparr>)"
    using pushed_point_warm [of 1 2 "[a, b, c, d]"] by (simp add: numeral_2_eq_2)
  have p2: "pushed_point [a, b, c, d] 2 2 = (case steady_stats [ret a, ret b] of (mean_v, std_v) \<Rightarrow>
        PeriodReturn.extend c \<lparr>z = zscore (ret c) mean_v std_v,
           localMean = Some mean_v, localStd = Some std_v\<rparr>)"
    using pushed_point_steady [of 2 2 "[a, b, c, d]"] by (simp add: numeral_2_eq_2)
  have p3: "pushed_point [a, b, c, d] 2 3 = (case steady_stats [ret b, ret c] of (mean_v, std_v) \<Rightarrow>
        PeriodReturn.extend d \<lparr>z = zscore (ret d) mean_v std_v,
           localMean = Some mean_v, localStd = Some std_v\<rparr>)"
    using pushed_point_steady [of 2 3 "[a, b, c, d]"] by (simp add: numeral_3_eq_3 numeral_2_eq_2)
  have scen: "(let out = data (computeStatsRolling [a, b, c, d] 2)
      in (localMean (out ! 0), localStd (out ! 0)) = map_prod Some Some (warm_up_stats [ret a])
       \<and> (localMean (out ! 1), localStd (out ! 1))
           = map_prod Some Some (warm_up_stats [ret a, ret b])
       \<and> (localMean (out ! 2), localStd (out ! 2))
           = map_prod Some Some (steady_stats [ret a, ret b])
       \<and> (localMean (out ! 3), localStd (out ! 3))
           = map_prod Some Some (steady_stats [ret b, ret c]))"
    unfolding computeStatsRolling_data idx Let_def
    by (simp add: p0 p1 p2 p3 split: prod.split)
  show ?thesis using gen scen by blast
qed

theorem rolling_warm_up_window_witness:
  "(1::nat) < 2 \<and> 1 < length returns4
   \<and> (localMean (data (computeStatsRolling returns4 2) ! 1),
       localStd (data (computeStatsRolling returns4 2) ! 1))
       = map_prod Some Some (warm_up_stats [Fin (1 / 4), Fin (- (1 / 2))])"
proof -
  have len: "1 < length returns4" by (simp add: returns4_def)
  have sl: "map ret (take (1 + 1) returns4) = [Fin (1 / 4), Fin (- (1 / 2))]"
    by (simp add: returns4_def)
  note t = rolling_warm_up_window [of 2 returns4, THEN conjunct1, THEN spec, of 1]
  show ?thesis using t len sl by (simp add: Let_def)
qed

text \<open>
  C6. Every point of the full-sample result has \<open>z = (ret - mean) / std\<close> for the result's
  mean and standard deviation when \<open>std\<close> is not zero, and \<open>z = 0\<close> when it is; every point of
  the rolling result has the same with its own \<open>localMean\<close> and \<open>localStd\<close>.
\<close>

theorem zscore_invariant:
  "(\<forall>p\<in>set (data (computeStatsFullSample returns)).
       z p = (if jeq (std (computeStatsFullSample returns)) (Fin 0) then Fin 0
              else jdiv (jsub (ret p) (mean (computeStatsFullSample returns)))
                        (std (computeStatsFullSample returns))))
   \<and> (\<forall>p\<in>set (data (computeStatsRolling returns windowSize)).
       \<exists>m s. localMean p = Some m \<and> localStd p = Some s
         \<and> z p = (if jeq s (Fin 0) then Fin 0 else jdiv (jsub (ret p) m) s))"
proof -
  have "\<exists>m s. localMean (pushed_point returns windowSize i) = Some m
      \<and> localStd (pushed_point returns windowSize i) = Some s
      \<and> z (pushed_point returns windowSize i)
          = (if jeq s (Fin 0) then Fin 0
             else jdiv (jsub (ret (pushed_point returns windowSize i)) m) s)" for i
    by (cases "i < windowSize")
       (auto simp: pushed_point_warm pushed_point_steady zscore_def split: prod.split)
  then have roll: "\<forall>p\<in>set (data (computeStatsRolling returns windowSize)).
       \<exists>m s. localMean p = Some m \<and> localStd p = Some s
         \<and> z p = (if jeq s (Fin 0) then Fin 0 else jdiv (jsub (ret p) m) s)"
    by (auto simp: computeStatsRolling_data)
  have full: "\<forall>p\<in>set (data (computeStatsFullSample returns)).
       z p = (if jeq (std (computeStatsFullSample returns)) (Fin 0) then Fin 0
              else jdiv (jsub (ret p) (mean (computeStatsFullSample returns)))
                        (std (computeStatsFullSample returns)))"
    by (auto simp: computeStatsFullSample_def Let_def zscore_def)
  show ?thesis using full roll by blast
qed

lemma normalizers_length:
  "length (data (computeStatsFullSample returns)) = length returns"
  "length (data (computeStatsRolling returns windowSize)) = length returns"
  by (simp_all add: computeStatsRolling_data computeStatsFullSample_def Let_def)

lemma normalizers_ret:
  assumes "i < length returns"
  shows "ret (data (computeStatsFullSample returns) ! i) = ret (returns ! i)"
    and "ret (data (computeStatsRolling returns windowSize) ! i) = ret (returns ! i)"
  using assms
  by (auto simp: computeStatsRolling_data pushed_point_frame computeStatsFullSample_def Let_def)

theorem zscore_invariant_witness:
  "data (computeStatsFullSample returns4) \<noteq> [] \<and> data (computeStatsRolling returns4 2) \<noteq> []
   \<and> z (data (computeStatsFullSample returns4) ! 0)
       = (if jeq (std (computeStatsFullSample returns4)) (Fin 0) then Fin 0
          else jdiv (jsub (Fin (1 / 4)) (mean (computeStatsFullSample returns4)))
                    (std (computeStatsFullSample returns4)))
   \<and> (\<exists>m s. localMean (data (computeStatsRolling returns4 2) ! 0) = Some m
         \<and> localStd (data (computeStatsRolling returns4 2) ! 0) = Some s
         \<and> z (data (computeStatsRolling returns4 2) ! 0)
           = (if jeq s (Fin 0) then Fin 0 else jdiv (jsub (Fin (1 / 4)) m) s))"
proof -
  have len: "0 < length returns4" and r0: "ret (returns4 ! 0) = Fin (1 / 4)"
    by (simp_all add: returns4_def)
  have l1: "0 < length (data (computeStatsFullSample returns4))"
    and l2: "0 < length (data (computeStatsRolling returns4 2))"
    using len by (simp_all add: normalizers_length)
  have r1: "ret (data (computeStatsFullSample returns4) ! 0) = Fin (1 / 4)"
    and r2: "ret (data (computeStatsRolling returns4 2) ! 0) = Fin (1 / 4)"
    using normalizers_ret [OF len] r0 by simp_all
  have m1: "data (computeStatsFullSample returns4) ! 0 \<in> set (data (computeStatsFullSample returns4))"
    and m2: "data (computeStatsRolling returns4 2) ! 0 \<in> set (data (computeStatsRolling returns4 2))"
    using l1 l2 by (simp_all only: nth_mem)
  have ne: "data (computeStatsFullSample returns4) \<noteq> []" "data (computeStatsRolling returns4 2) \<noteq> []"
    using l1 l2 by auto
  show ?thesis
    using zscore_invariant [of returns4 2] m1 m2 ne r1 r2 by (metis (no_types, lifting))
qed

text \<open>
  C9. On the empty return sequence \<open>computeStatsRolling\<close> returns
  \<open>{ mean: 0, std: 0, data: [] }\<close>, for every window size: the division by \<open>validCount\<close> is
  not reached.
\<close>

theorem rolling_empty:
  "computeStatsRolling [] windowSize = \<lparr>mean = Fin 0, std = Fin 0, data = []\<rparr>"
  by (simp add: computeStatsRolling_def)

theorem rolling_empty_witness:
  "computeStatsRolling [] 20 = \<lparr>mean = Fin 0, std = Fin 0, data = []\<rparr>"
  using rolling_empty [of 20] .

text \<open>
  C10. The \<open>data\<close> of both normalizers has the length of the input, and the point at each
  index has the \<open>date\<close> and the \<open>ret\<close> of the input point at that index.
\<close>

theorem normalizers_frame:
  "length (data (computeStatsFullSample returns)) = length returns
   \<and> length (data (computeStatsRolling returns windowSize)) = length returns
   \<and> (\<forall>i<length returns.
         date (data (computeStatsFullSample returns) ! i) = date (returns ! i)
       \<and> ret (data (computeStatsFullSample returns) ! i) = ret (returns ! i)
       \<and> date (data (computeStatsRolling returns windowSize) ! i) = date (returns ! i)
       \<and> ret (data (computeStatsRolling returns windowSize) ! i) = ret (returns ! i))"
  by (auto simp: computeStatsRolling_data pushed_point_frame computeStatsFullSample_def Let_def)

theorem normalizers_frame_witness:
  "length (data (computeStatsRolling returns4 2)) = 4
   \<and> date (data (computeStatsFullSample returns4) ! 3) = ''2024-01-08''
   \<and> ret (data (computeStatsRolling returns4 2) ! 3) = Fin (3 / 4)"
proof -
  have len: "length returns4 = 4" by (simp add: returns4_def)
  have r: "returns4 ! 3 = \<lparr>date = ''2024-01-08'', ret = Fin (3 / 4)\<rparr>" by (simp add: returns4_def)
  show ?thesis using normalizers_frame [of returns4 2] len r by simp
qed

section \<open>The range filter\<close>

text \<open>
  C8. Filtering a sequence that was already filtered to the same bounds returns it
  unchanged; with both bounds set the filter keeps exactly the points with
  \<open>startDate \<le> date \<le> endDate\<close>, in their order; with a bound not set it returns its input.
\<close>

theorem filteredData_idempotent:
  "filteredData (filteredData allData startDate endDate) startDate endDate
     = filteredData allData startDate endDate
   \<and> (startDate \<noteq> [] \<and> endDate \<noteq> [] \<longrightarrow>
        filteredData allData startDate endDate
          = filter (\<lambda>d. startDate \<le> date d \<and> date d \<le> endDate) allData)
   \<and> (startDate = [] \<or> endDate = [] \<longrightarrow> filteredData allData startDate endDate = allData)"
  by (simp add: filteredData_def)

theorem filteredData_idempotent_witness:
  "filteredData returns4 ''2024-01-04'' ''2024-01-05''
     = [\<lparr>date = ''2024-01-04'', ret = Fin (- (1 / 2))\<rparr>, \<lparr>date = ''2024-01-05'', ret = Fin (1 / 8)\<rparr>]
   \<and> filteredData (filteredData returns4 ''2024-01-04'' ''2024-01-05'') ''2024-01-04'' ''2024-01-05''
     = filteredData returns4 ''2024-01-04'' ''2024-01-05''
   \<and> filteredData returns4 [] ''2024-01-05'' = returns4"
proof -
  have f: "filter (\<lambda>d. ''2024-01-04'' \<le> date d \<and> date d \<le> ''2024-01-05'') returns4
    = [\<lparr>date = ''2024-01-04'', ret = Fin (- (1 / 2))\<rparr>, \<lparr>date = ''2024-01-05'', ret = Fin (1 / 8)\<rparr>]"
    by (simp add: returns4_def)
  note t = filteredData_idempotent [of returns4 "''2024-01-04''" "''2024-01-05''"]
  have a: "filteredData returns4 ''2024-01-04'' ''2024-01-05''
     = [\<lparr>date = ''2024-01-04'', ret = Fin (- (1 / 2))\<rparr>, \<lparr>date = ''2024-01-05'', ret = Fin (1 / 8)\<rparr>]"
    using t f by simp
  have b: "filteredData (filteredData returns4 ''2024-01-04'' ''2024-01-05'') ''2024-01-04'' ''2024-01-05''
     = filteredData returns4 ''2024-01-04'' ''2024-01-05''"
    using t by blast
  have c: "filteredData returns4 [] ''2024-01-05'' = returns4"
    using filteredData_idempotent [of returns4 "[]" "''2024-01-05''"] by simp
  show ?thesis using a b c by blast
qed

section \<open>The signal list\<close>

lemma is_double_on_grid: "is_double (Fin q) \<Longrightarrow> on_grid q"
  by (simp add: round_ne_fix_on_grid)

lemma on_grid_abs: "on_grid q \<Longrightarrow> on_grid \<bar>q\<bar>"
proof -
  assume "on_grid q"
  then obtain k :: int where "q = of_int k * grid_unit" unfolding on_grid_def by blast
  then have "\<bar>q\<bar> = of_int \<bar>k\<bar> * grid_unit"
    using grid_unit_pos by (simp add: abs_mult)
  then show ?thesis unfolding on_grid_def by blast
qed

lemma jsub_Fin_Fin: "jsub (Fin a) (Fin b) = round_ne (a - b)"
  by (simp add: jsub_def jadd_def is_inf_def)

lemma jlt_zero_round_ne:
  assumes "on_grid a" and "on_grid b"
  shows "jlt (Fin 0) (if jsub (Fin b) (Fin a) = NaN then Fin 0 else jsub (Fin b) (Fin a))
           \<longleftrightarrow> a < b"
proof -
  have g: "on_grid (b - a)" using assms by (simp add: on_grid_diff)
  consider "a < b" | "a = b" | "b < a" by linarith
  then show ?thesis
  proof cases
    case 1
    then have "0 < b - a" by simp
    from round_ne_pos [OF this g] 1 show ?thesis
      by (auto simp: jsub_Fin_Fin jlt_def)
  next
    case 2
    then show ?thesis by (simp add: jsub_Fin_Fin jlt_def round_ne_def)
  next
    case 3
    then have "b - a < 0" by simp
    from round_ne_neg [OF this] 3 show ?thesis
      by (auto simp: jsub_Fin_Fin jlt_def)
  qed
qed

lemma compare_magnitude:
  assumes "sortable x" and "sortable y"
  shows "jlt (Fin 0) (sort_compare (\<lambda>a b. jsub (jabs (z b)) (jabs (z a))) x y)
           \<longleftrightarrow> \<not> magnitude_key (z x) \<le> magnitude_key (z y)"
proof (cases "z x")
  case NaN
  with assms show ?thesis by (simp add: sortable_def)
next
  case PInf
  then show ?thesis
    by (cases "z y") (simp_all add: sort_compare_def jsub_def jadd_def jlt_def is_inf_def)
next
  case NInf
  then show ?thesis
    by (cases "z y") (simp_all add: sort_compare_def jsub_def jadd_def jlt_def is_inf_def)
next
  case NZero
  note x = this
  show ?thesis
  proof (cases "z y")
    case (Fin b)
    have "on_grid \<bar>b\<bar>" using assms(2) Fin by (simp add: sortable_def is_double_on_grid on_grid_abs)
    moreover have "on_grid 0" unfolding on_grid_def by (rule exI [of _ 0]) simp
    ultimately show ?thesis
      using jlt_zero_round_ne [of 0 "\<bar>b\<bar>"] x Fin by (auto simp: sort_compare_def Let_def)
  qed (use x assms in \<open>simp_all add: sort_compare_def jsub_def jadd_def jlt_def is_inf_def round_ne_def sortable_def\<close>)
next
  case (Fin a)
  note x = this
  have ga: "on_grid \<bar>a\<bar>" using assms(1) x by (simp add: sortable_def is_double_on_grid on_grid_abs)
  show ?thesis
  proof (cases "z y")
    case (Fin b)
    have "on_grid \<bar>b\<bar>" using assms(2) Fin by (simp add: sortable_def is_double_on_grid on_grid_abs)
    then show ?thesis
      using jlt_zero_round_ne [of "\<bar>a\<bar>" "\<bar>b\<bar>"] ga x Fin by (auto simp: sort_compare_def Let_def)
  next
    case NZero
    have "on_grid 0" unfolding on_grid_def by (rule exI [of _ 0]) simp
    then show ?thesis
      using jlt_zero_round_ne [of "\<bar>a\<bar>" 0] ga x NZero by (auto simp: sort_compare_def Let_def)
  qed (use x assms in \<open>simp_all add: sort_compare_def jsub_def jadd_def jlt_def is_inf_def sortable_def\<close>)
qed

lemma js_insert_insort_key:
  assumes "sortable x" and "\<forall>y\<in>set ys. sortable y"
  shows "js_insert signal_compare x ys = insort_key (\<lambda>d. magnitude_key (z d)) x ys"
  using assms(2)
proof (induction ys)
  case Nil
  then show ?case by simp
next
  case (Cons y ys)
  then have "sortable y" by simp
  from compare_magnitude [OF assms(1) this] Cons show ?case by simp
qed

lemma js_sort_sort_key:
  assumes "\<forall>y\<in>set xs. sortable y"
  shows "js_sort signal_compare xs = sort_key (\<lambda>d. magnitude_key (z d)) xs"
  using assms
proof (induction xs)
  case Nil
  then show ?case by (simp add: js_sort_def)
next
  case (Cons x xs)
  then have IH: "js_sort signal_compare xs = sort_key (\<lambda>d. magnitude_key (z d)) xs" by simp
  have "\<forall>y\<in>set (sort_key (\<lambda>d. magnitude_key (z d)) xs). sortable y" using Cons.prems by simp
  with Cons.prems IH show ?case
    using js_insert_insort_key [of x "sort_key (\<lambda>d. magnitude_key (z d)) xs"]
    by (simp add: js_sort_def)
qed

lemma jge_not_NaN: "jge a t \<Longrightarrow> a \<noteq> NaN"
  by (simp add: jge_def)

lemma jabs_NaN: "jabs a = NaN \<longleftrightarrow> a = NaN"
  by (cases a) simp_all

lemma filter_sortable:
  assumes "\<forall>d\<in>set points. is_double (z d)"
  shows "\<forall>d\<in>set (filter (\<lambda>d. jge (jabs (z d)) threshold) points). sortable d"
  using assms jge_not_NaN jabs_NaN by (auto simp: sortable_def)

lemma magnitude_key_le:
  assumes "a \<noteq> NaN" and "b \<noteq> NaN"
  shows "magnitude_key a \<le> magnitude_key b \<longleftrightarrow> jge (jabs a) (jabs b)"
  using assms by (cases a; cases b) (auto simp: jge_def jlt_def)

lemma magnitude_key_eq:
  assumes "a \<noteq> NaN" and "b \<noteq> NaN"
  shows "magnitude_key a = magnitude_key b \<longleftrightarrow> jabs a = jabs b"
  using assms by (cases a; cases b) auto

text \<open>
  C7. For every sequence of normalized points whose z-scores are binary64 values, and every
  threshold, the signal list holds exactly the points with \<open>abs(z) >= threshold\<close> (each as
  often as the input does), is sorted descending by \<open>abs(z)\<close>, and keeps the points of equal
  \<open>abs(z)\<close> in their original order.
\<close>

theorem listSignals_sorted_stable:
  assumes "\<forall>d\<in>set points. is_double (z d)"
  shows "mset (listSignals points threshold)
           = mset (filter (\<lambda>d. jge (jabs (z d)) threshold) points)
       \<and> sorted_wrt (\<lambda>a b. jge (jabs (z a)) (jabs (z b))) (listSignals points threshold)
       \<and> (\<forall>d\<in>set (listSignals points threshold).
            filter (\<lambda>e. jabs (z e) = jabs (z d)) (listSignals points threshold)
              = filter (\<lambda>e. jabs (z e) = jabs (z d))
                  (filter (\<lambda>d. jge (jabs (z d)) threshold) points))"
proof -
  let ?S = "filter (\<lambda>d. jge (jabs (z d)) threshold) points"
  let ?f = "\<lambda>d. magnitude_key (z d)"
  have sv: "\<forall>d\<in>set ?S. sortable d" using filter_sortable [OF assms] .
  have eq: "listSignals points threshold = sort_key ?f ?S"
    unfolding listSignals_def using js_sort_sort_key [OF sv] .
  have nn: "z d \<noteq> NaN" if "d \<in> set ?S" for d using sv that by (auto simp: sortable_def)
  have 1: "mset (listSignals points threshold) = mset ?S" by (simp add: eq)
  have "sorted (map ?f (sort_key ?f ?S))" by (rule sorted_sort_key)
  then have "sorted_wrt (\<lambda>a b. ?f a \<le> ?f b) (sort_key ?f ?S)"
    by (simp add: sorted_map)
  then have 2: "sorted_wrt (\<lambda>a b. jge (jabs (z a)) (jabs (z b))) (listSignals points threshold)"
    unfolding eq
    by (rule sorted_wrt_mono_rel [rotated]) (simp add: magnitude_key_le nn)
  have 3: "filter (\<lambda>e. jabs (z e) = jabs (z d)) (listSignals points threshold)
              = filter (\<lambda>e. jabs (z e) = jabs (z d)) ?S"
    if "d \<in> set (listSignals points threshold)" for d
  proof -
    from that have d: "d \<in> set ?S" by (simp add: eq)
    have k: "(jabs (z e) = jabs (z d)) = (?f e = ?f d)" if "e \<in> set ?S" for e
      using magnitude_key_eq [OF nn [OF that] nn [OF d]] by simp
    have "filter (\<lambda>e. jabs (z e) = jabs (z d)) (sort_key ?f ?S)
        = filter (\<lambda>e. ?f e = ?f d) (sort_key ?f ?S)"
      by (rule filter_cong) (simp_all add: k)
    also have "\<dots> = filter (\<lambda>e. ?f e = ?f d) ?S" by (rule sort_key_stable)
    also have "\<dots> = filter (\<lambda>e. jabs (z e) = jabs (z d)) ?S"
      by (rule filter_cong) (simp_all add: k)
    finally show ?thesis by (simp add: eq)
  qed
  show ?thesis using 1 2 3 by blast
qed

text \<open>
  The operations of the comparisons of the five points, one by one, each with the exponent and the
  53-bit integer of its rounding.
\<close>

lemma signal_step_1: "jsub (Fin 3) (Fin 3) = Fin 0"
  by (simp add: jsub_def jadd_def is_inf_def round_ne_def)

lemma signal_step_2: "jsub (Fin 3) (Fin (5 / 2)) = Fin (1 / 2)"
proof -
  have "round_ne (1 / 2) = Fin (1 / 2)"
    using round_ne_eqI(1) [of "1 / 2" "- 1" 4503599627370496]
    by (simp add: round_half_even_def)
  then show ?thesis by (simp add: jsub_def jadd_def is_inf_def)
qed

lemma signal_step_3: "jsub (Fin (5 / 2)) (Fin 3) = Fin (- (1 / 2))"
proof -
  have "round_ne (- (1 / 2)) = Fin (- (1 / 2))"
    using round_ne_eqI(2) [of "1 / 2" "- 1" 4503599627370496]
    by (simp add: round_half_even_def)
  then show ?thesis by (simp add: jsub_def jadd_def is_inf_def)
qed

lemma signal_step_4: "jsub (Fin (5 / 2)) (Fin (5 / 2)) = Fin 0"
  by (simp add: jsub_def jadd_def is_inf_def round_ne_def)

lemmas signal_steps = signal_step_1 signal_step_2 signal_step_3 signal_step_4

lemma signal_double_1: "is_double (Fin (1 / 2))"
proof -
  have "round_ne (1 / 2) = Fin (1 / 2)"
    using round_ne_eqI(1) [of "1 / 2" "- 1" 4503599627370496]
    by (simp add: round_half_even_def)
  then show ?thesis by simp
qed

lemma signal_double_2: "is_double (Fin (- 3))"
proof -
  have "round_ne (- 3) = Fin (- 3)"
    using round_ne_eqI(2) [of "3" "1" 6755399441055744]
    by (simp add: round_half_even_def)
  then show ?thesis by simp
qed

lemma signal_double_3: "is_double (Fin 3)"
proof -
  have "round_ne (3) = Fin 3"
    using round_ne_eqI(1) [of "3" "1" 6755399441055744]
    by (simp add: round_half_even_def)
  then show ?thesis by simp
qed

lemma signal_double_4: "is_double (Fin (5 / 2))"
proof -
  have "round_ne (5 / 2) = Fin (5 / 2)"
    using round_ne_eqI(1) [of "5 / 2" "1" 5629499534213120]
    by (simp add: round_half_even_def)
  then show ?thesis by simp
qed

lemma signal_double_5: "is_double (Fin (- 1))"
proof -
  have "round_ne (- 1) = Fin (- 1)"
    using round_ne_eqI(2) [of "1" "0" 4503599627370496]
    by (simp add: round_half_even_def)
  then show ?thesis by simp
qed

lemma points5_doubles: "\<forall>d\<in>set points5. is_double (z d)"
  using signal_double_1 signal_double_2 signal_double_3 signal_double_4 signal_double_5
  by (simp add: points5_def)

lemma points5_signals:
  "map z (listSignals points5 (Fin 2)) = [Fin (- 3), Fin 3, Fin (5 / 2)]"
  by (simp add: listSignals_def points5_def jge_def jlt_def js_sort_def sort_compare_def
      signal_steps)

theorem listSignals_sorted_stable_witness:
  "list_all (\<lambda>d. is_double (z d)) points5
   \<and> map z (listSignals points5 (Fin 2)) = [Fin (- 3), Fin 3, Fin (5 / 2)]
   \<and> sorted_wrt (\<lambda>a b. jge (jabs (z a)) (jabs (z b))) (listSignals points5 (Fin 2))
   \<and> mset (listSignals points5 (Fin 2))
       = mset (filter (\<lambda>d. jge (jabs (z d)) (Fin 2)) points5)"
  unfolding list_all_iff
  using listSignals_sorted_stable [OF points5_doubles, of "Fin 2"] points5_doubles points5_signals
  by blast

section \<open>Identical returns\<close>

lemma jsub_self: "jsub (Fin v) (Fin v) = Fin 0"
  by (simp add: jsub_def jadd_def is_inf_def round_ne_def)

lemma jpow2_zero: "jpow2 (Fin 0) = Fin 0"
  by (simp add: jpow2_def jmul_def is_inf_def is_zero_def signed_zero_def)

lemma jadd_zero_zero: "jadd (Fin 0) (Fin 0) = Fin 0"
  by (simp add: jadd_def is_inf_def round_ne_def)

lemma sum_sq_dev_const:
  assumes "\<forall>x\<in>set vals. x = Fin v"
  shows "sum_sq_dev vals (Fin v) = Fin 0"
  using assms unfolding sum_sq_dev_def
  by (induction vals) (simp_all add: jsub_self jpow2_zero jadd_zero_zero)

lemma jdiv_zero:
  assumes "b \<noteq> NaN" and "\<not> is_zero b"
  shows "is_zero (jdiv (Fin 0) b)"
  using assms by (simp add: jdiv_def is_inf_def is_zero_def signed_zero_def Let_def)

lemma js_or_one: "js_or a (Fin 1) \<noteq> NaN \<and> \<not> is_zero (js_or a (Fin 1))"
  by (simp add: js_or_def is_zero_def)

lemma jsqrt_zero: "is_zero x \<Longrightarrow> is_zero (jsqrt x)"
  by (auto simp: is_zero_def)

lemma jeq_zero: "is_zero x \<Longrightarrow> jeq x (Fin 0)"
  by (auto simp: is_zero_def jeq_def)

lemma num_1: "num 1 = Fin 1"
proof -
  have "round_ne 1 = Fin 1"
    using round_ne_eqI(1) [of 1 0 4503599627370496] by (simp add: round_half_even_def)
  then show ?thesis by (simp add: num_def)
qed

lemma single_mean:
  assumes "is_double (Fin v)"
  shows "jdiv (sum_vals [Fin v]) (Fin 1) = Fin v"
proof -
  have r: "round_ne v = Fin v" using assms by simp
  show ?thesis
    by (cases "v = 0")
       (simp_all add: sum_vals_def jadd_def jdiv_def is_inf_def is_zero_def signed_zero_def r)
qed

text \<open>
  The operations of the computation on three returns of 0.1, one by one, each with the exponent and the
  53-bit integer of its rounding.
\<close>

lemma tenth_step_1: "jadd (Fin 0) (Fin (3602879701896397 / 36028797018963968)) = Fin (3602879701896397 / 36028797018963968)"
proof -
  have "round_ne (3602879701896397 / 36028797018963968) = Fin (3602879701896397 / 36028797018963968)"
    using round_ne_eqI(1) [of "3602879701896397 / 36028797018963968" "- 4" 7205759403792794]
    by (simp add: round_half_even_def)
  then show ?thesis by (simp add: jadd_def is_inf_def)
qed

lemma tenth_step_2: "jadd (Fin (3602879701896397 / 36028797018963968)) (Fin (3602879701896397 / 36028797018963968)) = Fin (3602879701896397 / 18014398509481984)"
proof -
  have "round_ne (3602879701896397 / 18014398509481984) = Fin (3602879701896397 / 18014398509481984)"
    using round_ne_eqI(1) [of "3602879701896397 / 18014398509481984" "- 3" 7205759403792794]
    by (simp add: round_half_even_def)
  then show ?thesis by (simp add: jadd_def is_inf_def)
qed

lemma tenth_step_3: "jadd (Fin (3602879701896397 / 18014398509481984)) (Fin (3602879701896397 / 36028797018963968)) = Fin (1351079888211149 / 4503599627370496)"
proof -
  have "round_ne (10808639105689191 / 36028797018963968) = Fin (1351079888211149 / 4503599627370496)"
    using round_ne_eqI(1) [of "10808639105689191 / 36028797018963968" "- 2" 5404319552844596]
    by (simp add: round_half_even_def)
  then show ?thesis by (simp add: jadd_def is_inf_def)
qed

lemma tenth_step_4: "num 3 = Fin 3"
proof -
  have "round_ne (3) = Fin 3"
    using round_ne_eqI(1) [of "3" "1" 6755399441055744]
    by (simp add: round_half_even_def)
  then show ?thesis by (simp add: num_def)
qed

lemma tenth_step_5: "jdiv (Fin (1351079888211149 / 4503599627370496)) (Fin 3) = Fin (7205759403792795 / 72057594037927936)"
proof -
  have "round_ne (1351079888211149 / 13510798882111488) = Fin (7205759403792795 / 72057594037927936)"
    using round_ne_eqI(1) [of "1351079888211149 / 13510798882111488" "- 4" 7205759403792795]
    by (simp add: round_half_even_def)
  then show ?thesis by (simp add: jdiv_def is_inf_def is_zero_def)
qed

lemma tenth_step_6: "jsub (Fin (3602879701896397 / 36028797018963968)) (Fin (7205759403792795 / 72057594037927936)) = Fin (- (1 / 72057594037927936))"
proof -
  have "round_ne (- (1 / 72057594037927936)) = Fin (- (1 / 72057594037927936))"
    using round_ne_eqI(2) [of "1 / 72057594037927936" "- 56" 4503599627370496]
    by (simp add: round_half_even_def)
  then show ?thesis by (simp add: jsub_def jadd_def is_inf_def)
qed

lemma tenth_step_7: "jmul (Fin (- (1 / 72057594037927936))) (Fin (- (1 / 72057594037927936))) = Fin (1 / 5192296858534827628530496329220096)"
proof -
  have "round_ne (1 / 5192296858534827628530496329220096) = Fin (1 / 5192296858534827628530496329220096)"
    using round_ne_eqI(1) [of "1 / 5192296858534827628530496329220096" "- 112" 4503599627370496]
    by (simp add: round_half_even_def)
  then show ?thesis by (simp add: jmul_def is_inf_def is_zero_def)
qed

lemma tenth_step_8: "jadd (Fin 0) (Fin (1 / 5192296858534827628530496329220096)) = Fin (1 / 5192296858534827628530496329220096)"
proof -
  have "round_ne (1 / 5192296858534827628530496329220096) = Fin (1 / 5192296858534827628530496329220096)"
    using round_ne_eqI(1) [of "1 / 5192296858534827628530496329220096" "- 112" 4503599627370496]
    by (simp add: round_half_even_def)
  then show ?thesis by (simp add: jadd_def is_inf_def)
qed

lemma tenth_step_9: "jadd (Fin (1 / 5192296858534827628530496329220096)) (Fin (1 / 5192296858534827628530496329220096)) = Fin (1 / 2596148429267413814265248164610048)"
proof -
  have "round_ne (1 / 2596148429267413814265248164610048) = Fin (1 / 2596148429267413814265248164610048)"
    using round_ne_eqI(1) [of "1 / 2596148429267413814265248164610048" "- 111" 4503599627370496]
    by (simp add: round_half_even_def)
  then show ?thesis by (simp add: jadd_def is_inf_def)
qed

lemma tenth_step_10: "jadd (Fin (1 / 2596148429267413814265248164610048)) (Fin (1 / 5192296858534827628530496329220096)) = Fin (3 / 5192296858534827628530496329220096)"
proof -
  have "round_ne (3 / 5192296858534827628530496329220096) = Fin (3 / 5192296858534827628530496329220096)"
    using round_ne_eqI(1) [of "3 / 5192296858534827628530496329220096" "- 111" 6755399441055744]
    by (simp add: round_half_even_def)
  then show ?thesis by (simp add: jadd_def is_inf_def)
qed

lemma tenth_step_11: "jsub (Fin 3) (Fin 1) = Fin 2"
proof -
  have "round_ne (2) = Fin 2"
    using round_ne_eqI(1) [of "2" "1" 4503599627370496]
    by (simp add: round_half_even_def)
  then show ?thesis by (simp add: jsub_def jadd_def is_inf_def)
qed

lemma tenth_step_12: "jdiv (Fin (3 / 5192296858534827628530496329220096)) (Fin 2) = Fin (3 / 10384593717069655257060992658440192)"
proof -
  have "round_ne (3 / 10384593717069655257060992658440192) = Fin (3 / 10384593717069655257060992658440192)"
    using round_ne_eqI(1) [of "3 / 10384593717069655257060992658440192" "- 112" 6755399441055744]
    by (simp add: round_half_even_def)
  then show ?thesis by (simp add: jdiv_def is_inf_def is_zero_def)
qed

lemma tenth_step_13: "sqrt_ne (3 / 10384593717069655257060992658440192) = Fin (2757880273211543 / 162259276829213363391578010288128)"
  by code_simp

lemma tenth_step_14: "jdiv (Fin (- (1 / 72057594037927936))) (Fin (2757880273211543 / 162259276829213363391578010288128)) = Fin (- (7354347395230783 / 9007199254740992))"
proof -
  have "round_ne (- (2251799813685248 / 2757880273211543)) = Fin (- (7354347395230783 / 9007199254740992))"
    using round_ne_eqI(2) [of "2251799813685248 / 2757880273211543" "- 1" 7354347395230783]
    by (simp add: round_half_even_def)
  then show ?thesis by (simp add: jdiv_def is_inf_def is_zero_def)
qed

lemmas tenth_steps = tenth_step_1 tenth_step_2 tenth_step_3 tenth_step_4 tenth_step_5 tenth_step_6 tenth_step_7 tenth_step_8 tenth_step_9 tenth_step_10 tenth_step_11 tenth_step_12 tenth_step_13 tenth_step_14

text \<open>
  The operations of the mean of two returns of 0.25, one by one, each with the exponent and the
  53-bit integer of its rounding.
\<close>

lemma quarter_step_1: "jadd (Fin 0) (Fin (1 / 4)) = Fin (1 / 4)"
proof -
  have "round_ne (1 / 4) = Fin (1 / 4)"
    using round_ne_eqI(1) [of "1 / 4" "- 2" 4503599627370496]
    by (simp add: round_half_even_def)
  then show ?thesis by (simp add: jadd_def is_inf_def)
qed

lemma quarter_step_2: "jadd (Fin (1 / 4)) (Fin (1 / 4)) = Fin (1 / 2)"
proof -
  have "round_ne (1 / 2) = Fin (1 / 2)"
    using round_ne_eqI(1) [of "1 / 2" "- 1" 4503599627370496]
    by (simp add: round_half_even_def)
  then show ?thesis by (simp add: jadd_def is_inf_def)
qed

lemma quarter_step_3: "num 2 = Fin 2"
proof -
  have "round_ne (2) = Fin 2"
    using round_ne_eqI(1) [of "2" "1" 4503599627370496]
    by (simp add: round_half_even_def)
  then show ?thesis by (simp add: num_def)
qed

lemma quarter_step_4: "jdiv (Fin (1 / 2)) (Fin 2) = Fin (1 / 4)"
proof -
  have "round_ne (1 / 4) = Fin (1 / 4)"
    using round_ne_eqI(1) [of "1 / 4" "- 2" 4503599627370496]
    by (simp add: round_half_even_def)
  then show ?thesis by (simp add: jdiv_def is_inf_def is_zero_def)
qed

lemmas quarter_steps = quarter_step_1 quarter_step_2 quarter_step_3 quarter_step_4

lemma quarter_double: "is_double (Fin (1 / 4))"
proof -
  have "round_ne (1 / 4) = Fin (1 / 4)"
    using round_ne_eqI(1) [of "1 / 4" "- 2" 4503599627370496]
    by (simp add: round_half_even_def)
  then show ?thesis by simp
qed

lemma tenth_double: "is_double (Fin (3602879701896397 / 36028797018963968))"
proof -
  have "round_ne (3602879701896397 / 36028797018963968) = Fin (3602879701896397 / 36028797018963968)"
    using round_ne_eqI(1) [of "3602879701896397 / 36028797018963968" "- 4" 7205759403792794]
    by (simp add: round_half_even_def)
  then show ?thesis by simp
qed

lemma num_Suc3: "num (Suc (Suc (Suc 0))) = Fin 3"
  using tenth_step_4 by (simp add: eval_nat_numeral)

lemma tenth3_mean:
  "mean (computeStatsFullSample tenth3) = Fin (7205759403792795 / 72057594037927936)"
  by (simp add: tenth3_def computeStatsFullSample_def Let_def sum_vals_def num_Suc3 tenth_steps)

lemma tenth3_std:
  "std (computeStatsFullSample tenth3)
     = Fin (2757880273211543 / 162259276829213363391578010288128)"
  by (simp add: tenth3_def computeStatsFullSample_def Let_def sum_vals_def sum_sq_dev_def
      jpow2_def js_or_def is_zero_def num_Suc3 tenth_steps)

lemma tenth3_z:
  "map z (data (computeStatsFullSample tenth3))
     = [Fin (- (7354347395230783 / 9007199254740992)),
        Fin (- (7354347395230783 / 9007199254740992)),
        Fin (- (7354347395230783 / 9007199254740992))]"
  by (simp add: tenth3_def computeStatsFullSample_def Let_def sum_vals_def sum_sq_dev_def
      jpow2_def js_or_def is_zero_def jeq_def zscore_def num_Suc3 tenth_steps)

text \<open>
  C4, as stated, fails. Three returns of 0.1 are all identical, but the sum
  \<open>0.1 + 0.1 + 0.1\<close> rounds to 0.30000000000000004 and the mean to 0.10000000000000002, so
  that the standard deviation is about \<open>1.7e-17\<close>, not 0, and every z-score is about
  -0.8165.
\<close>

theorem identical_values_counterexample:
  "is_double (Fin (3602879701896397 / 36028797018963968))
   \<and> map ret tenth3 = [Fin (3602879701896397 / 36028797018963968),
        Fin (3602879701896397 / 36028797018963968), Fin (3602879701896397 / 36028797018963968)]
   \<and> std (computeStatsFullSample tenth3)
       = Fin (2757880273211543 / 162259276829213363391578010288128)
   \<and> \<not> jeq (std (computeStatsFullSample tenth3)) (Fin 0)
   \<and> map z (data (computeStatsFullSample tenth3))
       = [Fin (- (7354347395230783 / 9007199254740992)),
          Fin (- (7354347395230783 / 9007199254740992)),
          Fin (- (7354347395230783 / 9007199254740992))]"
  using tenth_double tenth3_std tenth3_z by (simp add: tenth3_def jeq_def is_zero_def)

text \<open>
  C4, amended. When all returns are the same finite number \<open>v\<close> and the computed mean is
  exactly \<open>v\<close>, the standard deviation is zero and every z-score is 0; for a single return
  with a finite value the computed mean is that value, the standard deviation is 0 and the
  z-score is 0.
\<close>

theorem identical_values_exact_mean:
  "(returns \<noteq> [] \<and> (\<forall>r\<in>set returns. ret r = Fin v)
      \<and> mean (computeStatsFullSample returns) = Fin v
    \<longrightarrow> jeq (std (computeStatsFullSample returns)) (Fin 0)
      \<and> (\<forall>p\<in>set (data (computeStatsFullSample returns)). z p = Fin 0))
   \<and> (is_double (Fin v)
    \<longrightarrow> mean (computeStatsFullSample [\<lparr>date = d, ret = Fin v\<rparr>]) = Fin v
      \<and> std (computeStatsFullSample [\<lparr>date = d, ret = Fin v\<rparr>]) = Fin 0
      \<and> map z (data (computeStatsFullSample [\<lparr>date = d, ret = Fin v\<rparr>])) = [Fin 0])"
proof -
  have a: "jeq (std (computeStatsFullSample returns)) (Fin 0)
      \<and> (\<forall>p\<in>set (data (computeStatsFullSample returns)). z p = Fin 0)"
    if ne: "returns \<noteq> []" and all: "\<forall>r\<in>set returns. ret r = Fin v"
      and m: "mean (computeStatsFullSample returns) = Fin v"
  proof -
    have len: "length returns \<noteq> 0" using ne by simp
    have mv: "jdiv (sum_vals (map ret returns)) (num (length returns)) = Fin v"
      using m len by (simp add: computeStatsFullSample_def Let_def)
    have ss: "sum_sq_dev (map ret returns) (Fin v) = Fin 0"
      using all by (intro sum_sq_dev_const) auto
    have sd: "std (computeStatsFullSample returns)
        = jsqrt (jdiv (Fin 0) (js_or (jsub (num (length returns)) (Fin 1)) (Fin 1)))"
      using len by (simp add: computeStatsFullSample_def Let_def mv ss)
    have z0: "is_zero (std (computeStatsFullSample returns))"
      unfolding sd using js_or_one by (intro jsqrt_zero jdiv_zero) simp_all
    then have e: "jeq (std (computeStatsFullSample returns)) (Fin 0)" by (rule jeq_zero)
    have "\<forall>p\<in>set (data (computeStatsFullSample returns)).
        z p = zscore (ret p) (mean (computeStatsFullSample returns))
                (std (computeStatsFullSample returns))"
      using len by (auto simp: computeStatsFullSample_def Let_def)
    with e show ?thesis by (simp add: zscore_def)
  qed
  have b: "mean (computeStatsFullSample [\<lparr>date = d, ret = Fin v\<rparr>]) = Fin v
      \<and> std (computeStatsFullSample [\<lparr>date = d, ret = Fin v\<rparr>]) = Fin 0
      \<and> map z (data (computeStatsFullSample [\<lparr>date = d, ret = Fin v\<rparr>])) = [Fin 0]"
    if dv: "is_double (Fin v)"
  proof -
    have n: "num (Suc 0) = Fin 1" using num_1 by simp
    have ss: "sum_sq_dev [Fin v] (Fin v) = Fin 0" by (rule sum_sq_dev_const) simp
    have dz: "jdiv (Fin 0) (js_or (jsub (Fin 1) (Fin 1)) (Fin 1)) = Fin 0"
      by (simp add: jsub_self js_or_def is_zero_def jdiv_def is_inf_def signed_zero_def)
    show ?thesis
      by (simp add: computeStatsFullSample_def Let_def single_mean [OF dv] n ss dz zscore_def
          jeq_def is_zero_def)
  qed
  show ?thesis using a b by blast
qed

lemma num_Suc2: "num (Suc (Suc 0)) = Fin 2"
  using quarter_step_3 by (simp add: eval_nat_numeral)

lemma quarter2_mean: "mean (computeStatsFullSample quarter2) = Fin (1 / 4)"
  by (simp add: quarter2_def computeStatsFullSample_def Let_def sum_vals_def num_Suc2
      quarter_steps)

theorem identical_values_exact_mean_witness:
  "quarter2 \<noteq> [] \<and> list_all (\<lambda>r. ret r = Fin (1 / 4)) quarter2
   \<and> mean (computeStatsFullSample quarter2) = Fin (1 / 4)
   \<and> jeq (std (computeStatsFullSample quarter2)) (Fin 0)
   \<and> list_all (\<lambda>p. z p = Fin 0) (data (computeStatsFullSample quarter2))
   \<and> is_double (Fin (1 / 4))
   \<and> std (computeStatsFullSample [\<lparr>date = ''2024-01-03'', ret = Fin (1 / 4)\<rparr>]) = Fin 0
   \<and> map z (data (computeStatsFullSample [\<lparr>date = ''2024-01-03'', ret = Fin (1 / 4)\<rparr>])) = [Fin 0]"
proof -
  have ne: "quarter2 \<noteq> []" and all: "\<forall>r\<in>set quarter2. ret r = Fin (1 / 4)"
    by (simp_all add: quarter2_def)
  show ?thesis
    unfolding list_all_iff
    using identical_values_exact_mean [of quarter2 "1 / 4" "''2024-01-03''"]
      ne all quarter2_mean quarter_double
    by blast
qed

section \<open>The scenario of the specification\<close>

text \<open>
  The operations of the computation on the five prices, one by one, each with the exponent and the
  53-bit integer of its rounding.
\<close>

lemma scenario_step_1: "jsub (Fin 102) (Fin 100) = Fin 2"
proof -
  have "round_ne (2) = Fin 2"
    using round_ne_eqI(1) [of "2" "1" 4503599627370496]
    by (simp add: round_half_even_def)
  then show ?thesis by (simp add: jsub_def jadd_def is_inf_def)
qed

lemma scenario_step_2: "jdiv (Fin 2) (Fin 100) = Fin (5764607523034235 / 288230376151711744)"
proof -
  have "round_ne (1 / 50) = Fin (5764607523034235 / 288230376151711744)"
    using round_ne_eqI(1) [of "1 / 50" "- 6" 5764607523034235]
    by (simp add: round_half_even_def)
  then show ?thesis by (simp add: jdiv_def is_inf_def is_zero_def)
qed

lemma scenario_step_3: "jsub (Fin 101) (Fin 102) = Fin (- 1)"
proof -
  have "round_ne (- 1) = Fin (- 1)"
    using round_ne_eqI(2) [of "1" "0" 4503599627370496]
    by (simp add: round_half_even_def)
  then show ?thesis by (simp add: jsub_def jadd_def is_inf_def)
qed

lemma scenario_step_4: "jdiv (Fin (- 1)) (Fin 102) = Fin (- (1412894000743685 / 144115188075855872))"
proof -
  have "round_ne (- (1 / 102)) = Fin (- (1412894000743685 / 144115188075855872))"
    using round_ne_eqI(2) [of "1 / 102" "- 7" 5651576002974740]
    by (simp add: round_half_even_def)
  then show ?thesis by (simp add: jdiv_def is_inf_def is_zero_def)
qed

lemma scenario_step_5: "jsub (Fin 105) (Fin 101) = Fin 4"
proof -
  have "round_ne (4) = Fin 4"
    using round_ne_eqI(1) [of "4" "2" 4503599627370496]
    by (simp add: round_half_even_def)
  then show ?thesis by (simp add: jsub_def jadd_def is_inf_def)
qed

lemma scenario_step_6: "jdiv (Fin 4) (Fin 101) = Fin (5707532201023995 / 144115188075855872)"
proof -
  have "round_ne (4 / 101) = Fin (5707532201023995 / 144115188075855872)"
    using round_ne_eqI(1) [of "4 / 101" "- 5" 5707532201023995]
    by (simp add: round_half_even_def)
  then show ?thesis by (simp add: jdiv_def is_inf_def is_zero_def)
qed

lemma scenario_step_7: "jsub (Fin 90) (Fin 105) = Fin (- 15)"
proof -
  have "round_ne (- 15) = Fin (- 15)"
    using round_ne_eqI(2) [of "15" "3" 8444249301319680]
    by (simp add: round_half_even_def)
  then show ?thesis by (simp add: jsub_def jadd_def is_inf_def)
qed

lemma scenario_step_8: "jdiv (Fin (- 15)) (Fin 105) = Fin (- (2573485501354569 / 18014398509481984))"
proof -
  have "round_ne (- (1 / 7)) = Fin (- (2573485501354569 / 18014398509481984))"
    using round_ne_eqI(2) [of "1 / 7" "- 3" 5146971002709138]
    by (simp add: round_half_even_def)
  then show ?thesis by (simp add: jdiv_def is_inf_def is_zero_def)
qed

lemma scenario_step_9: "jadd (Fin 0) (Fin (5764607523034235 / 288230376151711744)) = Fin (5764607523034235 / 288230376151711744)"
proof -
  have "round_ne (5764607523034235 / 288230376151711744) = Fin (5764607523034235 / 288230376151711744)"
    using round_ne_eqI(1) [of "5764607523034235 / 288230376151711744" "- 6" 5764607523034235]
    by (simp add: round_half_even_def)
  then show ?thesis by (simp add: jadd_def is_inf_def)
qed

lemma scenario_step_10: "jadd (Fin (5764607523034235 / 288230376151711744)) (Fin (- (1412894000743685 / 144115188075855872))) = Fin (2938819521546865 / 288230376151711744)"
proof -
  have "round_ne (2938819521546865 / 288230376151711744) = Fin (2938819521546865 / 288230376151711744)"
    using round_ne_eqI(1) [of "2938819521546865 / 288230376151711744" "- 7" 5877639043093730]
    by (simp add: round_half_even_def)
  then show ?thesis by (simp add: jadd_def is_inf_def)
qed

lemma scenario_step_11: "jadd (Fin (2938819521546865 / 288230376151711744)) (Fin (5707532201023995 / 144115188075855872)) = Fin (1794235490449357 / 36028797018963968)"
proof -
  have "round_ne (14353883923594855 / 288230376151711744) = Fin (1794235490449357 / 36028797018963968)"
    using round_ne_eqI(1) [of "14353883923594855 / 288230376151711744" "- 5" 7176941961797428]
    by (simp add: round_half_even_def)
  then show ?thesis by (simp add: jadd_def is_inf_def)
qed

lemma scenario_step_12: "jadd (Fin (1794235490449357 / 36028797018963968)) (Fin (- (2573485501354569 / 18014398509481984))) = Fin (- (3352735512259781 / 36028797018963968))"
proof -
  have "round_ne (- (3352735512259781 / 36028797018963968)) = Fin (- (3352735512259781 / 36028797018963968))"
    using round_ne_eqI(2) [of "3352735512259781 / 36028797018963968" "- 4" 6705471024519562]
    by (simp add: round_half_even_def)
  then show ?thesis by (simp add: jadd_def is_inf_def)
qed

lemma scenario_step_13: "num 4 = Fin 4"
proof -
  have "round_ne (4) = Fin 4"
    using round_ne_eqI(1) [of "4" "2" 4503599627370496]
    by (simp add: round_half_even_def)
  then show ?thesis by (simp add: num_def)
qed

lemma scenario_step_14: "jdiv (Fin (- (3352735512259781 / 36028797018963968))) (Fin 4) = Fin (- (3352735512259781 / 144115188075855872))"
proof -
  have "round_ne (- (3352735512259781 / 144115188075855872)) = Fin (- (3352735512259781 / 144115188075855872))"
    using round_ne_eqI(2) [of "3352735512259781 / 144115188075855872" "- 6" 6705471024519562]
    by (simp add: round_half_even_def)
  then show ?thesis by (simp add: jdiv_def is_inf_def is_zero_def)
qed

lemma scenario_step_15: "jsub (Fin (5764607523034235 / 288230376151711744)) (Fin (- (3352735512259781 / 144115188075855872))) = Fin (3117519636888449 / 72057594037927936)"
proof -
  have "round_ne (12470078547553797 / 288230376151711744) = Fin (3117519636888449 / 72057594037927936)"
    using round_ne_eqI(1) [of "12470078547553797 / 288230376151711744" "- 5" 6235039273776898]
    by (simp add: round_half_even_def)
  then show ?thesis by (simp add: jsub_def jadd_def is_inf_def)
qed

lemma scenario_step_16: "jmul (Fin (3117519636888449 / 72057594037927936)) (Fin (3117519636888449 / 72057594037927936)) = Fin (8632142721851721 / 4611686018427387904)"
proof -
  have "round_ne (9718928686385086902958469625601 / 5192296858534827628530496329220096) = Fin (8632142721851721 / 4611686018427387904)"
    using round_ne_eqI(1) [of "9718928686385086902958469625601 / 5192296858534827628530496329220096" "- 10" 8632142721851721]
    by (simp add: round_half_even_def)
  then show ?thesis by (simp add: jmul_def is_inf_def is_zero_def)
qed

lemma scenario_step_17: "jadd (Fin 0) (Fin (8632142721851721 / 4611686018427387904)) = Fin (8632142721851721 / 4611686018427387904)"
proof -
  have "round_ne (8632142721851721 / 4611686018427387904) = Fin (8632142721851721 / 4611686018427387904)"
    using round_ne_eqI(1) [of "8632142721851721 / 4611686018427387904" "- 10" 8632142721851721]
    by (simp add: round_half_even_def)
  then show ?thesis by (simp add: jadd_def is_inf_def)
qed

lemma scenario_step_18: "jsub (Fin (- (1412894000743685 / 144115188075855872))) (Fin (- (3352735512259781 / 144115188075855872))) = Fin (30310023617439 / 2251799813685248)"
proof -
  have "round_ne (30310023617439 / 2251799813685248) = Fin (30310023617439 / 2251799813685248)"
    using round_ne_eqI(1) [of "30310023617439 / 2251799813685248" "- 7" 7759366046064384]
    by (simp add: round_half_even_def)
  then show ?thesis by (simp add: jsub_def jadd_def is_inf_def)
qed

lemma scenario_step_19: "jmul (Fin (30310023617439 / 2251799813685248)) (Fin (30310023617439 / 2251799813685248)) = Fin (417775268801829 / 2305843009213693952)"
proof -
  have "round_ne (918697531689709963424918721 / 5070602400912917605986812821504) = Fin (417775268801829 / 2305843009213693952)"
    using round_ne_eqI(1) [of "918697531689709963424918721 / 5070602400912917605986812821504" "- 13" 6684404300829264]
    by (simp add: round_half_even_def)
  then show ?thesis by (simp add: jmul_def is_inf_def is_zero_def)
qed

lemma scenario_step_20: "jadd (Fin (8632142721851721 / 4611686018427387904)) (Fin (417775268801829 / 2305843009213693952)) = Fin (2366923314863845 / 1152921504606846976)"
proof -
  have "round_ne (9467693259455379 / 4611686018427387904) = Fin (2366923314863845 / 1152921504606846976)"
    using round_ne_eqI(1) [of "9467693259455379 / 4611686018427387904" "- 9" 4733846629727690]
    by (simp add: round_half_even_def)
  then show ?thesis by (simp add: jadd_def is_inf_def)
qed

lemma scenario_step_21: "jsub (Fin (5707532201023995 / 144115188075855872)) (Fin (- (3352735512259781 / 144115188075855872))) = Fin (141566683020059 / 2251799813685248)"
proof -
  have "round_ne (141566683020059 / 2251799813685248) = Fin (141566683020059 / 2251799813685248)"
    using round_ne_eqI(1) [of "141566683020059 / 2251799813685248" "- 4" 4530133856641888]
    by (simp add: round_half_even_def)
  then show ?thesis by (simp add: jsub_def jadd_def is_inf_def)
qed

lemma scenario_step_22: "jmul (Fin (141566683020059 / 2251799813685248)) (Fin (141566683020059 / 2251799813685248)) = Fin (4556824419819773 / 1152921504606846976)"
proof -
  have "round_ne (20041125741301861188996363481 / 5070602400912917605986812821504) = Fin (4556824419819773 / 1152921504606846976)"
    using round_ne_eqI(1) [of "20041125741301861188996363481 / 5070602400912917605986812821504" "- 8" 4556824419819773]
    by (simp add: round_half_even_def)
  then show ?thesis by (simp add: jmul_def is_inf_def is_zero_def)
qed

lemma scenario_step_23: "jadd (Fin (2366923314863845 / 1152921504606846976)) (Fin (4556824419819773 / 1152921504606846976)) = Fin (3461873867341809 / 576460752303423488)"
proof -
  have "round_ne (3461873867341809 / 576460752303423488) = Fin (3461873867341809 / 576460752303423488)"
    using round_ne_eqI(1) [of "3461873867341809 / 576460752303423488" "- 8" 6923747734683618]
    by (simp add: round_half_even_def)
  then show ?thesis by (simp add: jadd_def is_inf_def)
qed

lemma scenario_step_24: "jsub (Fin (- (2573485501354569 / 18014398509481984))) (Fin (- (3352735512259781 / 144115188075855872))) = Fin (- (4308787124644193 / 36028797018963968))"
proof -
  have "round_ne (- (17235148498576771 / 144115188075855872)) = Fin (- (4308787124644193 / 36028797018963968))"
    using round_ne_eqI(2) [of "17235148498576771 / 144115188075855872" "- 4" 8617574249288386]
    by (simp add: round_half_even_def)
  then show ?thesis by (simp add: jsub_def jadd_def is_inf_def)
qed

lemma scenario_step_25: "jmul (Fin (- (4308787124644193 / 36028797018963968))) (Fin (- (4308787124644193 / 36028797018963968))) = Fin (8244803278101097 / 576460752303423488)"
proof -
  have "round_ne (18565646485499572383956848621249 / 1298074214633706907132624082305024) = Fin (8244803278101097 / 576460752303423488)"
    using round_ne_eqI(1) [of "18565646485499572383956848621249 / 1298074214633706907132624082305024" "- 7" 8244803278101097]
    by (simp add: round_half_even_def)
  then show ?thesis by (simp add: jmul_def is_inf_def is_zero_def)
qed

lemma scenario_step_26: "jadd (Fin (3461873867341809 / 576460752303423488)) (Fin (8244803278101097 / 576460752303423488)) = Fin (5853338572721453 / 288230376151711744)"
proof -
  have "round_ne (5853338572721453 / 288230376151711744) = Fin (5853338572721453 / 288230376151711744)"
    using round_ne_eqI(1) [of "5853338572721453 / 288230376151711744" "- 6" 5853338572721453]
    by (simp add: round_half_even_def)
  then show ?thesis by (simp add: jadd_def is_inf_def)
qed

lemma scenario_step_27: "jsub (Fin 4) (Fin 1) = Fin 3"
proof -
  have "round_ne (3) = Fin 3"
    using round_ne_eqI(1) [of "3" "1" 6755399441055744]
    by (simp add: round_half_even_def)
  then show ?thesis by (simp add: jsub_def jadd_def is_inf_def)
qed

lemma scenario_step_28: "jdiv (Fin (5853338572721453 / 288230376151711744)) (Fin 3) = Fin (7804451430295271 / 1152921504606846976)"
proof -
  have "round_ne (5853338572721453 / 864691128455135232) = Fin (7804451430295271 / 1152921504606846976)"
    using round_ne_eqI(1) [of "5853338572721453 / 864691128455135232" "- 8" 7804451430295271]
    by (simp add: round_half_even_def)
  then show ?thesis by (simp add: jdiv_def is_inf_def is_zero_def)
qed

lemma scenario_step_29: "sqrt_ne (7804451430295271 / 1152921504606846976) = Fin (1482146343847937 / 18014398509481984)"
  by code_simp

lemmas scenario_steps = scenario_step_1 scenario_step_2 scenario_step_3 scenario_step_4 scenario_step_5 scenario_step_6 scenario_step_7 scenario_step_8 scenario_step_9 scenario_step_10 scenario_step_11 scenario_step_12 scenario_step_13 scenario_step_14 scenario_step_15 scenario_step_16 scenario_step_17 scenario_step_18 scenario_step_19 scenario_step_20 scenario_step_21 scenario_step_22 scenario_step_23 scenario_step_24 scenario_step_25 scenario_step_26 scenario_step_27 scenario_step_28 scenario_step_29

lemma scenario_returns:
  "computeReturns prices5 ''daily'' =
     [\<lparr>date = ''2024-01-03'', ret = Fin (5764607523034235 / 288230376151711744)\<rparr>,
      \<lparr>date = ''2024-01-04'', ret = Fin (- (1412894000743685 / 144115188075855872))\<rparr>,
      \<lparr>date = ''2024-01-05'', ret = Fin (5707532201023995 / 144115188075855872)\<rparr>,
      \<lparr>date = ''2024-01-08'', ret = Fin (- (2573485501354569 / 18014398509481984))\<rparr>]"
  by (simp add: computeReturns_def step_of_def prices5_def computeReturns_loop.simps Let_def
      scenario_steps)

lemma num_Suc4: "num (Suc (Suc (Suc (Suc 0)))) = Fin 4"
  using scenario_step_13 by (simp add: eval_nat_numeral)

lemma scenario_mean:
  "mean (computeStatsFullSample (computeReturns prices5 ''daily''))
     = Fin (- (3352735512259781 / 144115188075855872))"
  by (simp add: scenario_returns computeStatsFullSample_def Let_def sum_vals_def num_Suc4 scenario_steps)

lemma scenario_std:
  "std (computeStatsFullSample (computeReturns prices5 ''daily''))
     = Fin (1482146343847937 / 18014398509481984)"
  by (simp add: scenario_returns computeStatsFullSample_def Let_def sum_vals_def sum_sq_dev_def
      jpow2_def js_or_def is_zero_def num_Suc4 scenario_steps)

text \<open>
  C5, as stated, fails: for the prices 100, 102, 101, 105, 90 the full-sample mean is
  about -0.02326 and the standard deviation about 0.08228, not -0.0133 and 0.0756.
\<close>

theorem scenario_statistics_counterexample:
  "mean (computeStatsFullSample (computeReturns prices5 ''daily''))
     = Fin (- (3352735512259781 / 144115188075855872))
   \<and> std (computeStatsFullSample (computeReturns prices5 ''daily''))
     = Fin (1482146343847937 / 18014398509481984)
   \<and> \<not> approx4 (mean (computeStatsFullSample (computeReturns prices5 ''daily''))) (- (133 / 10000))
   \<and> \<not> approx4 (std (computeStatsFullSample (computeReturns prices5 ''daily''))) (756 / 10000)"
  by (simp add: scenario_mean scenario_std approx4_def)

text \<open>
  C5, amended. For the prices 100, 102, 101, 105, 90 and the daily period, \<open>computeReturns\<close>
  yields the four returns 0.02, -0.0098, 0.0396, -0.1429 (to four decimal places), and
  \<open>computeStatsFullSample\<close> on them yields the mean -0.0233 and the standard deviation
  0.0823 (to four decimal places), the root of the sum of squared deviations over
  \<open>n - 1 = 3\<close>.
\<close>

theorem scenario_statistics:
  "length (computeReturns prices5 ''daily'') = 4
   \<and> list_all2 approx4 (map ret (computeReturns prices5 ''daily''))
        [2 / 100, - (98 / 10000), 396 / 10000, - (1429 / 10000)]
   \<and> approx4 (mean (computeStatsFullSample (computeReturns prices5 ''daily''))) (- (233 / 10000))
   \<and> approx4 (std (computeStatsFullSample (computeReturns prices5 ''daily''))) (823 / 10000)
   \<and> std (computeStatsFullSample (computeReturns prices5 ''daily''))
       = jsqrt (jdiv (sum_sq_dev (map ret (computeReturns prices5 ''daily''))
                        (mean (computeStatsFullSample (computeReturns prices5 ''daily''))))
                     (Fin 3))"
proof -
  have d: "std (computeStatsFullSample (computeReturns prices5 ''daily''))
       = jsqrt (jdiv (sum_sq_dev (map ret (computeReturns prices5 ''daily''))
                        (mean (computeStatsFullSample (computeReturns prices5 ''daily''))))
                     (Fin 3))"
    by (simp add: scenario_returns computeStatsFullSample_def Let_def js_or_def is_zero_def
        num_Suc4 scenario_steps)
  have r: "length (computeReturns prices5 ''daily'') = 4
   \<and> list_all2 approx4 (map ret (computeReturns prices5 ''daily''))
        [2 / 100, - (98 / 10000), 396 / 10000, - (1429 / 10000)]"
    by (simp add: scenario_returns approx4_def)
  have m: "approx4 (mean (computeStatsFullSample (computeReturns prices5 ''daily''))) (- (233 / 10000))
   \<and> approx4 (std (computeStatsFullSample (computeReturns prices5 ''daily''))) (823 / 10000)"
    by (simp add: scenario_mean scenario_std approx4_def)
  show ?thesis using d r m by blast
qed

end
